theory Spec2Isabelle
  imports Complex_Main
begin

section \<open>Image matrices\<close>

text \<open>
  A \<open>cv::Mat\<close> is a dense matrix: a header (rows, columns, channels, element depth) and
  its elements. The source reads and writes elements as \<open>m.at<float>(y, x*dim+c)\<close>, that
  is by row \<open>y\<close> and by position \<open>i = x*dim+c\<close> inside the row; \<open>elem m y i\<close> is that element.
  Elements are real numbers: \<open>float\<close> and \<open>double\<close> arithmetic is idealised to exact real
  arithmetic, and an 8-bit element is a real with an integer value between 0 and 255.
  Dimensions are the non-negative \<open>int\<close>s of OpenCV, here natural numbers; the products of
  dimensions computed by the source are assumed to stay inside the range of \<open>int\<close>.
\<close>

datatype depth = CV_8U | CV_32F

record Mat =
  rows :: nat
  cols :: nat
  channels :: nat
  depth :: depth
  elem :: "nat \<Rightarrow> nat \<Rightarrow> real"

text \<open>\<open>m.at<T>(y, i) = v\<close>\<close>

definition set_at :: "Mat \<Rightarrow> nat \<Rightarrow> nat \<Rightarrow> real \<Rightarrow> Mat" where
  "set_at m y i v = m\<lparr>elem := (elem m)(y := (elem m y)(i := v))\<rparr>"

text \<open>The C++ conversion \<open>(int)r\<close> of a floating-point value: truncation toward zero.\<close>

definition c_int :: "real \<Rightarrow> int" where
  "c_int r = (if 0 \<le> r then \<lfloor>r\<rfloor> else \<lceil>r\<rceil>)"

text \<open>
  \<open>cvRound\<close> and \<open>saturate_cast<uchar>\<close> of OpenCV, which \<open>convertTo\<close> applies to every
  element when the target depth is \<open>CV_8U\<close>: round to nearest, ties to even, then clamp
  to 0..255.
\<close>

definition cvRound :: "real \<Rightarrow> int" where
  "cvRound r = (let f = \<lfloor>r\<rfloor> in
     if r - of_int f < 1/2 then f
     else if 1/2 < r - of_int f then f + 1
     else if even f then f else f + 1)"

definition saturate_uchar :: "int \<Rightarrow> int" where
  "saturate_uchar v = max 0 (min 255 v)"

text \<open>\<open>src.convertTo(dst, CV_8UC1, alpha)\<close>: a new matrix, the source is only read.\<close>

definition convertTo_8U :: "Mat \<Rightarrow> real \<Rightarrow> Mat" where
  "convertTo_8U m alpha =
     m\<lparr>depth := CV_8U,
       elem := \<lambda>y i. of_int (saturate_uchar (cvRound (elem m y i * alpha)))\<rparr>"

text \<open>\<open>src.convertTo(dst, CV_MAKETYPE(CV_32F, dim), alpha)\<close>\<close>

definition convertTo_32F :: "Mat \<Rightarrow> real \<Rightarrow> Mat" where
  "convertTo_32F m alpha = m\<lparr>depth := CV_32F, elem := \<lambda>y i. elem m y i * alpha\<rparr>"

section \<open>Orientation quantization\<close>

text \<open>
  \<open>quantizeOrientation(cv::Mat& vfield, cv::Mat& edge)\<close> receives two references to
  matrices of its caller and writes through one of them. The caller's matrices are a
  store \<open>h\<close> from references to matrices; \<open>vfield\<close> and \<open>edge\<close> are references into it
  (the same reference when the caller passes one matrix twice). The locals \<open>uedge\<close> and
  \<open>distmap\<close> are matrices of the function's own.

  \<open>cv::distanceTransform(uedge, distmap, cv::DIST_L2, 3)\<close> is OpenCV's; it is the
  parameter \<open>distanceTransform\<close>, from the 8-bit mask to the matrix of distances.
\<close>

text \<open>Lines 41 to 45, the body of the first pair of loops.\<close>

definition binarize_px :: "nat \<Rightarrow> nat \<Rightarrow> Mat \<Rightarrow> Mat" where
  "binarize_px y x uedge =
     (if elem uedge y x < 192 then set_at uedge y x 0 else set_at uedge y x 1)"

text \<open>Lines 37 to 47: the converted copy of \<open>edge\<close>, binarized in place.\<close>

definition edgeMask :: "nat \<Rightarrow> nat \<Rightarrow> Mat \<Rightarrow> Mat" where
  "edgeMask width height edge =
     (let uedge = convertTo_8U edge 255
      in fold (\<lambda>y. fold (binarize_px y) [0..<width]) [0..<height] uedge)"

text \<open>Lines 53 to 56, the body of the second pair of loops.\<close>

definition snap_px ::
  "real \<Rightarrow> real \<Rightarrow> real \<Rightarrow> Mat \<Rightarrow> nat \<Rightarrow> nat \<Rightarrow> nat \<Rightarrow> (nat \<Rightarrow> Mat) \<Rightarrow> (nat \<Rightarrow> Mat)" where
  "snap_px threshold q_s q_t distmap vfield y x h =
     (if threshold < elem distmap y x then
        (let theta = elem (h vfield) y x
         in h(vfield := set_at (h vfield) y x (of_int \<lceil>theta / q_t\<rceil> * q_t + q_s)))
      else h)"

definition quantizeOrientation ::
  "(Mat \<Rightarrow> Mat) \<Rightarrow> nat \<Rightarrow> nat \<Rightarrow> (nat \<Rightarrow> Mat) \<Rightarrow> (nat \<Rightarrow> Mat)" where
  "quantizeOrientation distanceTransform vfield edge h =
     (let width = cols (h vfield);
          height = rows (h vfield);
          threshold = real (max width height) / 50;
          q_s = - pi / 4;
          q_t = pi;
          uedge = edgeMask width height (h edge);
          distmap = distanceTransform uedge
      in fold (\<lambda>y. fold (snap_px threshold q_s q_t distmap vfield y) [0..<width])
           [0..<height] h)"

section \<open>The collaborators of the pipeline\<close>

text \<open>
  The functions the source calls and does not define are the fields of one record,
  passed to every function that calls them: \<open>gauss\<close> of \<open>math_utils.h\<close>; the generator
  \<open>lime::Random\<close>; \<open>npr::edgeDoG\<close>, \<open>npr::calcVectorField\<close> and \<open>npr::uniformNoise\<close>;
  and OpenCV's \<open>bilateralFilter\<close>, \<open>cvtColor\<close> (with \<open>COLOR_BGR2GRAY\<close>),
  \<open>distanceTransform\<close> (with \<open>DIST_L2\<close> and mask size 3) and \<open>resize\<close> (with
  \<open>INTER_CUBIC\<close>).

  The state of the random generator is the number of draws made so far;
  \<open>randInt E i m\<close> is what the draw number \<open>i\<close> returns when it is asked for an integer
  below \<open>m\<close>. \<open>uniformNoise\<close> may draw as well, so it takes and returns that state.
\<close>

record ext =
  gauss :: "real \<Rightarrow> real \<Rightarrow> real"
  randInt :: "nat \<Rightarrow> int \<Rightarrow> int"
  bilateralFilter :: "Mat \<Rightarrow> int \<Rightarrow> real \<Rightarrow> real \<Rightarrow> Mat"
  cvtColor_BGR2GRAY :: "Mat \<Rightarrow> Mat"
  edgeDoG :: "Mat \<Rightarrow> Mat"
  calcVectorField :: "Mat \<Rightarrow> int \<Rightarrow> Mat"
  distanceTransform :: "Mat \<Rightarrow> Mat"
  uniformNoise :: "Mat \<Rightarrow> Mat \<Rightarrow> int \<Rightarrow> nat \<Rightarrow> Mat \<times> nat"
  resize :: "Mat \<Rightarrow> nat \<times> nat \<Rightarrow> real \<Rightarrow> real \<Rightarrow> Mat"

section \<open>The constants of the source\<close>

text \<open>
  Lines 8 to 15. The constants \<open>S\<close> and \<open>n\<close> are \<open>const_S\<close> and \<open>const_n\<close> here, and
  the number of channels \<open>dim\<close> of the source is written \<open>dim'\<close>.
\<close>

definition tau :: real where "tau = pi / 6"
definition t_disc :: int where "t_disc = 24"
definition s_disc :: int where "s_disc = 24"
definition sigma_1 :: real where "sigma_1 = 4"
definition sigma_2 :: real where "sigma_2 = 2"
definition const_S :: real where "const_S = 7"
definition const_n :: int where "const_n = 2"
definition ksize :: int where "ksize = 11"

section \<open>The convolver\<close>

text \<open>
  The four vectors of one pixel, each with one entry per channel. The vector \<open>sum\<close> of
  the source is \<open>sum_v\<close>.
\<close>

record vectors =
  s_sum :: "real list"
  w_sum :: "real list"
  sum_v :: "real list"
  weight :: "real list"

text \<open>Lines 95 to 98: one channel of one sample that landed on pixel \<open>(xx, yy)\<close>.\<close>

definition sample_c ::
  "ext \<Rightarrow> Mat \<Rightarrow> Mat \<Rightarrow> nat \<Rightarrow> nat \<Rightarrow> nat \<Rightarrow> nat \<Rightarrow> nat \<Rightarrow> nat \<Rightarrow> vectors \<Rightarrow> vectors" where
  "sample_c E bilateral noise dim' y x yy xx c a =
     (let dI = elem bilateral yy (xx * dim' + c) - elem bilateral y (x * dim' + c);
          G2 = gauss E dI sigma_2
      in a\<lparr>s_sum := (s_sum a)[c := s_sum a ! c
                        + G2 * elem noise yy xx * (1 - elem bilateral y (x * dim' + c))],
           w_sum := (w_sum a)[c := w_sum a ! c + G2]\<rparr>)"

text \<open>Lines 90 to 100: the sample number \<open>s\<close> along the angle \<open>theta\<close>.\<close>

definition sample ::
  "ext \<Rightarrow> Mat \<Rightarrow> Mat \<Rightarrow> nat \<Rightarrow> nat \<Rightarrow> nat \<Rightarrow> nat \<Rightarrow> nat \<Rightarrow> real \<Rightarrow> int \<Rightarrow> vectors \<Rightarrow> vectors" where
  "sample E bilateral noise width height dim' y x theta s a =
     (let scale = const_S / of_int s_disc * of_int s;
          xx = c_int (real x + scale * cos theta);
          yy = c_int (real y + scale * sin theta)
      in if 0 \<le> xx \<and> 0 \<le> yy \<and> xx < int width \<and> yy < int height
         then fold (sample_c E bilateral noise dim' y x (nat yy) (nat xx)) [0..<dim'] a
         else a)"

text \<open>Lines 104 and 105: one channel of the weighting of an angle candidate.\<close>

definition angle_c :: "real \<Rightarrow> nat \<Rightarrow> vectors \<Rightarrow> vectors" where
  "angle_c G1 c a =
     a\<lparr>sum_v := (sum_v a)[c := sum_v a ! c + G1 * s_sum a ! c],
       weight := (weight a)[c := weight a ! c + G1 * w_sum a ! c]\<rparr>"

text \<open>Lines 86 to 106: the angle candidate number \<open>t\<close>.\<close>

definition angle ::
  "ext \<Rightarrow> Mat \<Rightarrow> Mat \<Rightarrow> Mat \<Rightarrow> nat \<Rightarrow> nat \<Rightarrow> nat \<Rightarrow> nat \<Rightarrow> nat \<Rightarrow> real \<Rightarrow> int \<Rightarrow> vectors \<Rightarrow> vectors" where
  "angle E bilateral etf noise width height dim' y x t_i t a =
     (let theta = tau / of_int t_disc * of_int t + elem etf y x;
          a = a\<lparr>s_sum := map (\<lambda>v. 0) (s_sum a), w_sum := map (\<lambda>v. 0) (w_sum a)\<rparr>;
          a = fold (sample E bilateral noise width height dim' y x theta) [- s_disc..s_disc] a;
          G1 = gauss E (t_i - theta) sigma_1
      in fold (angle_c G1) [0..<dim'] a)"

text \<open>Lines 79 to 107 without the draw: the vectors of pixel \<open>(x, y)\<close> after all angles.\<close>

definition pixel_sums ::
  "ext \<Rightarrow> Mat \<Rightarrow> Mat \<Rightarrow> Mat \<Rightarrow> nat \<Rightarrow> nat \<Rightarrow> nat \<Rightarrow> nat \<Rightarrow> nat \<Rightarrow> real \<Rightarrow> vectors" where
  "pixel_sums E bilateral etf noise width height dim' y x t_i =
     fold (angle E bilateral etf noise width height dim' y x t_i) [- t_disc..t_disc]
       \<lparr>s_sum = replicate dim' 0, w_sum = replicate dim' 0,
        sum_v = replicate dim' 0, weight = replicate dim' 0\<rparr>"

text \<open>
  Lines 79 to 111: the pixel \<open>(x, y)\<close>. It draws one random integer and writes the
  \<open>dim\<close> channels of the pixel. The state is the output matrix and the state of the
  generator.
\<close>

definition LIConv_px ::
  "ext \<Rightarrow> Mat \<Rightarrow> Mat \<Rightarrow> Mat \<Rightarrow> real \<Rightarrow> nat \<Rightarrow> nat \<Rightarrow> nat \<Rightarrow> nat \<Rightarrow> nat \<Rightarrow> Mat \<times> nat
     \<Rightarrow> Mat \<times> nat" where
  "LIConv_px E bilateral etf noise ratio width height dim' y x st =
     (let lic = fst st;
          i = snd st;
          t_i = tau / of_int const_n * of_int (randInt E i (2 * const_n + 1) - const_n);
          a = pixel_sums E bilateral etf noise width height dim' y x t_i
      in (fold (\<lambda>c lic. set_at lic y (x * dim' + c) (1 - sum_v a ! c / (ratio * weight a ! c)))
            [0..<dim'] lic,
          Suc i))"

text \<open>
  \<open>LIConv\<close>, lines 61 to 118. A failed \<open>assert\<close> ends the program: the result is \<open>None\<close>.
  The new matrix \<open>lic\<close> has no defined content before the loops write it; it is zero
  here. The macro \<open>ompfor\<close> is read as the plain \<open>for\<close> loop: the pixels of a row are
  visited in order. The generator \<open>rand\<close> of line 75 is taken to be the shared generator:
  its draws move the state that the caller gets back. The progress bar only prints and
  is left out.
\<close>

definition LIConv :: "ext \<Rightarrow> Mat \<Rightarrow> Mat \<Rightarrow> Mat \<Rightarrow> real \<Rightarrow> nat \<Rightarrow> (Mat \<times> nat) option" where
  "LIConv E img etf noise ratio i =
     (let width = cols img;
          height = rows img;
          dim' = channels img
      in if \<not> (width = cols etf \<and> height = rows etf \<and> channels etf = 1 \<and> depth etf = CV_32F)
         then None
         else if \<not> (width = cols noise \<and> height = rows noise \<and> channels noise = 1
                    \<and> depth noise = CV_32F)
         then None
         else
           (let bilateral = bilateralFilter E img 19 0.5 15;
                lic = \<lparr>rows = height, cols = width, channels = dim', depth = depth img,
                       elem = \<lambda>y i. 0\<rparr>
            in Some (fold (\<lambda>y. fold (LIConv_px E bilateral etf noise ratio width height dim' y)
                             [0..<width])
                       [0..<height] (lic, i))))"

section \<open>The single-scale pipeline\<close>

text \<open>
  \<open>cv::rectangle(noise, cv::Rect(px, py, w, h), color, -1)\<close> on a matrix of one channel:
  the cells of the rectangle that lie inside the matrix are set to the color.
\<close>

definition rectangle_filled :: "Mat \<Rightarrow> int \<Rightarrow> int \<Rightarrow> int \<Rightarrow> int \<Rightarrow> real \<Rightarrow> Mat" where
  "rectangle_filled m px py w h v =
     m\<lparr>elem := \<lambda>y x.
         if px \<le> int x \<and> int x < px + w \<and> py \<le> int y \<and> int y < py + h
            \<and> y < rows m \<and> x < cols m
         then v else elem m y x\<rparr>"

text \<open>\<open>cv::Mat::zeros(height, width, CV_MAKETYPE(CV_32F, dim))\<close>\<close>

definition zeros :: "nat \<Rightarrow> nat \<Rightarrow> nat \<Rightarrow> Mat" where
  "zeros height width dim' =
     \<lparr>rows = height, cols = width, channels = dim', depth = CV_32F, elem = \<lambda>y i. 0\<rparr>"

text \<open>Lines 156 to 159: the anchor point number \<open>i\<close> is stamped and the ratio is set.\<close>

definition stamp ::
  "nat \<Rightarrow> nat \<Rightarrow> int \<Rightarrow> (real \<times> real) \<Rightarrow> Mat \<times> real \<Rightarrow> Mat \<times> real" where
  "stamp width height nNoise p st =
     (let px = c_int (fst p);
          py = c_int (snd p)
      in (rectangle_filled (fst st) px py 1 1 1,
          1.2 * of_int nNoise / real (width * height)))"

text \<open>
  Lines 144 to 161 of \<open>pencilDrawing\<close>: the noise field and the ratio, from the anchor
  points. The new matrix given to \<open>uniformNoise\<close> has no defined content; it is zero here.
\<close>

definition noiseField ::
  "ext \<Rightarrow> nat \<Rightarrow> nat \<Rightarrow> Mat \<Rightarrow> (real \<times> real) list \<Rightarrow> nat \<Rightarrow> (Mat \<times> real) \<times> nat" where
  "noiseField E width height gray points i =
     (let ratio = 1
      in if points = [] then
           (let nNoise = c_int (0.2 * real (width * height));
                noise = zeros height width 1;
                r = uniformNoise E noise gray (c_int (0.3 * real width * real height)) i
            in ((fst r, 1.5 * of_int nNoise / real (width * height)), snd r))
         else
           (let nNoise = int (length points);
                noise = zeros height width 1
            in (fold (stamp width height nNoise) points (noise, ratio), i)))"

text \<open>
  \<open>pencilDrawing\<close>, lines 120 to 165. The two matrices given to the quantizer are the
  matrices 0 (\<open>vfield\<close>) and 1 (\<open>edge\<close>) of a store.
\<close>

definition pencilDrawing ::
  "ext \<Rightarrow> Mat \<Rightarrow> (real \<times> real) list \<Rightarrow> nat \<Rightarrow> (Mat \<times> nat) option" where
  "pencilDrawing E input points i =
     (let width = cols input;
          height = rows input;
          dim' = channels input;
          img = (if depth input = CV_8U then convertTo_32F input (1 / 255)
                 else convertTo_32F input 1);
          gray = cvtColor_BGR2GRAY E img;
          edge = edgeDoG E gray;
          vfield = calcVectorField E gray ksize;
          h = quantizeOrientation (distanceTransform E) 0 1 ((\<lambda>r. edge)(0 := vfield));
          vfield = h 0;
          nr = noiseField E width height gray points i
      in LIConv E img vfield (fst (fst nr)) (snd (fst nr)) (snd nr))"

section \<open>The multi-scale pipeline\<close>

text \<open>
  \<open>out + O\<close> and \<open>out / (float)level\<close>. OpenCV raises an exception when the two operands
  of the sum differ in size or type: the sum is \<open>None\<close> then.
\<close>

definition mat_add :: "Mat \<Rightarrow> Mat \<Rightarrow> Mat option" where
  "mat_add A B =
     (if rows A = rows B \<and> cols A = cols B \<and> channels A = channels B \<and> depth A = depth B
      then Some (A\<lparr>elem := \<lambda>y i. elem A y i + elem B y i\<rparr>)
      else None)"

definition mat_div :: "Mat \<Rightarrow> real \<Rightarrow> Mat" where
  "mat_div A d = A\<lparr>elem := \<lambda>y i. elem A y i / d\<rparr>"

text \<open>Lines 176 to 191: the level \<open>l\<close>, on the sum so far and the state of the generator.\<close>

definition LOD_level ::
  "ext \<Rightarrow> Mat \<Rightarrow> (real \<times> real) list \<Rightarrow> nat \<Rightarrow> nat \<Rightarrow> int \<Rightarrow> (Mat \<times> nat) option
     \<Rightarrow> (Mat \<times> nat) option" where
  "LOD_level E img points width height l st =
     (case st of
        None \<Rightarrow> None
      | Some (out, i) \<Rightarrow>
          (let scale = 1 / 2 ^ nat (l - 1);
               I = resize E img (0, 0) scale scale;
               P = map (\<lambda>q. (fst q * scale, snd q * scale)) points
           in case pencilDrawing E I P i of
                None \<Rightarrow> None
              | Some (O', i') \<Rightarrow>
                  (case mat_add out (resize E O' (width, height) 0 0) of
                     None \<Rightarrow> None
                   | Some out' \<Rightarrow> Some (out', i'))))"

text \<open>\<open>pencilDrawingLOD\<close>, lines 167 to 194.\<close>

definition pencilDrawingLOD ::
  "ext \<Rightarrow> Mat \<Rightarrow> (real \<times> real) list \<Rightarrow> int \<Rightarrow> nat \<Rightarrow> (Mat \<times> nat) option" where
  "pencilDrawingLOD E img points level i =
     (let width = cols img;
          height = rows img;
          dim' = channels img;
          out = zeros height width dim'
      in case fold (LOD_level E img points width height) (rev [1..level]) (Some (out, i)) of
           None \<Rightarrow> None
         | Some (out, i') \<Rightarrow> Some (mat_div out (of_int level), i'))"

section \<open>Reference definitions, from the specification\<close>

text \<open>
  The specification's double-Gaussian line integral of the convolver, for the pixel
  \<open>(x, y)\<close>, the channel \<open>c\<close> and the jitter \<open>t_i\<close> of the pixel. The candidate number
  \<open>t\<close> has the angle \<open>(\<pi>/6)/24 \<cdot> t\<close> plus the flow field at the pixel; its sample number
  \<open>s\<close> is at the signed distance \<open>7/24 \<cdot> s\<close> and lands on the integer pixel \<open>landing\<close>;
  only the samples that land inside the image count.
\<close>

definition landing :: "nat \<Rightarrow> nat \<Rightarrow> real \<Rightarrow> int \<Rightarrow> int \<times> int" where
  "landing y x theta s =
     (c_int (real x + 7 / 24 * of_int s * cos theta),
      c_int (real y + 7 / 24 * of_int s * sin theta))"

definition inside :: "nat \<Rightarrow> nat \<Rightarrow> int \<times> int \<Rightarrow> bool" where
  "inside width height q \<longleftrightarrow>
     0 \<le> fst q \<and> fst q < int width \<and> 0 \<le> snd q \<and> snd q < int height"

definition LIC_reference ::
  "ext \<Rightarrow> Mat \<Rightarrow> Mat \<Rightarrow> Mat \<Rightarrow> real \<Rightarrow> nat \<Rightarrow> nat \<Rightarrow> nat \<Rightarrow> nat \<Rightarrow> nat \<Rightarrow> real \<Rightarrow> nat \<Rightarrow> real" where
  "LIC_reference E bilateral etf noise ratio width height dim' y x t_i c =
     (let theta = (\<lambda>t. pi / 6 / 24 * of_int t + elem etf y x);
          hit = (\<lambda>t s. landing y x (theta t) s);
          valid = (\<lambda>t. {s \<in> {- 24..24}. inside width height (hit t s)});
          G2 = (\<lambda>t s. gauss E (elem bilateral (nat (snd (hit t s))) (nat (fst (hit t s)) * dim' + c)
                                - elem bilateral y (x * dim' + c)) 2);
          s_sum = (\<lambda>t. \<Sum>s\<in>valid t. G2 t s
                        * elem noise (nat (snd (hit t s))) (nat (fst (hit t s)))
                        * (1 - elem bilateral y (x * dim' + c)));
          w_sum = (\<lambda>t. \<Sum>s\<in>valid t. G2 t s);
          G1 = (\<lambda>t. gauss E (t_i - theta t) 4)
      in 1 - (\<Sum>t\<in>{- 24..24}. G1 t * s_sum t) / (ratio * (\<Sum>t\<in>{- 24..24}. G1 t * w_sum t)))"

text \<open>The rounded-down integer coordinate of an anchor point.\<close>

definition anchor_cell :: "real \<times> real \<Rightarrow> int \<times> int" where
  "anchor_cell p = (\<lfloor>fst p\<rfloor>, \<lfloor>snd p\<rfloor>)"

text \<open>
  The specification's multi-scale result. \<open>level_image\<close> is one level: the single-scale
  pipeline on the input resized by \<open>1 / 2^(l-1)\<close> with the anchors scaled alike, resized
  back to the original extent. \<open>level_images\<close> runs the levels in the given order, the
  generator passing from one to the next. The result is their sum divided by the
  number of levels.
\<close>

definition level_image ::
  "ext \<Rightarrow> Mat \<Rightarrow> (real \<times> real) list \<Rightarrow> int \<Rightarrow> nat \<Rightarrow> (Mat \<times> nat) option" where
  "level_image E img points l i =
     (let scale = 1 / 2 ^ nat (l - 1)
      in case pencilDrawing E (resize E img (0, 0) scale scale)
                (map (\<lambda>q. (fst q * scale, snd q * scale)) points) i of
           None \<Rightarrow> None
         | Some (O', i') \<Rightarrow>
             (let U = resize E O' (cols img, rows img) 0 0
              in if rows U = rows img \<and> cols U = cols img \<and> channels U = channels img
                    \<and> depth U = CV_32F
                 then Some (U, i') else None))"

fun level_images ::
  "ext \<Rightarrow> Mat \<Rightarrow> (real \<times> real) list \<Rightarrow> int list \<Rightarrow> nat \<Rightarrow> (Mat list \<times> nat) option" where
  "level_images E img points [] i = Some ([], i)"
| "level_images E img points (l # ls) i =
     (case level_image E img points l i of
        None \<Rightarrow> None
      | Some (U, i') \<Rightarrow>
          (case level_images E img points ls i' of
             None \<Rightarrow> None
           | Some (Us, i'') \<Rightarrow> Some (U # Us, i'')))"

definition LOD_reference ::
  "ext \<Rightarrow> Mat \<Rightarrow> (real \<times> real) list \<Rightarrow> int \<Rightarrow> nat \<Rightarrow> (Mat \<times> nat) option" where
  "LOD_reference E img points levels i =
     (case level_images E img points (rev [1..levels]) i of
        None \<Rightarrow> None
      | Some (Us, i') \<Rightarrow>
          Some (\<lparr>rows = rows img, cols = cols img, channels = channels img, depth = CV_32F,
                 elem = \<lambda>y j. (\<Sum>U\<leftarrow>Us. elem U y j) / of_int levels\<rparr>, i'))"

section \<open>Auxiliary definitions\<close>

text \<open>
  The four vectors of a pixel, written as functions of the channel; the terms one
  sample adds to \<open>s_sum[c]\<close> and \<open>w_sum[c]\<close>; the angle of a candidate; the value the
  convolver writes for a pixel whose draw is the draw number \<open>i\<close>; and the two
  assertions of \<open>LIConv\<close>.
\<close>

definition vecs ::
  "nat \<Rightarrow> (nat \<Rightarrow> real) \<Rightarrow> (nat \<Rightarrow> real) \<Rightarrow> (nat \<Rightarrow> real) \<Rightarrow> (nat \<Rightarrow> real) \<Rightarrow> vectors" where
  "vecs d f g p q =
     \<lparr>s_sum = map f [0..<d], w_sum = map g [0..<d], sum_v = map p [0..<d],
      weight = map q [0..<d]\<rparr>"

definition G2_at :: "ext \<Rightarrow> Mat \<Rightarrow> nat \<Rightarrow> nat \<Rightarrow> nat \<Rightarrow> nat \<Rightarrow> int \<times> int \<Rightarrow> real" where
  "G2_at E bilateral dim' y x c q =
     gauss E (elem bilateral (nat (snd q)) (nat (fst q) * dim' + c)
              - elem bilateral y (x * dim' + c)) 2"

definition sample_s :: "ext \<Rightarrow> Mat \<Rightarrow> Mat \<Rightarrow> nat \<Rightarrow> nat \<Rightarrow> nat \<Rightarrow> nat \<Rightarrow> nat \<Rightarrow> nat \<Rightarrow> real \<Rightarrow> int \<Rightarrow> real" where
  "sample_s E B N w ht d y x c theta s =
     (if inside w ht (landing y x theta s)
      then G2_at E B d y x c (landing y x theta s)
           * elem N (nat (snd (landing y x theta s))) (nat (fst (landing y x theta s)))
           * (1 - elem B y (x * d + c))
      else 0)"

definition sample_w :: "ext \<Rightarrow> Mat \<Rightarrow> nat \<Rightarrow> nat \<Rightarrow> nat \<Rightarrow> nat \<Rightarrow> nat \<Rightarrow> nat \<Rightarrow> real \<Rightarrow> int \<Rightarrow> real" where
  "sample_w E B w ht d y x c theta s =
     (if inside w ht (landing y x theta s) then G2_at E B d y x c (landing y x theta s) else 0)"

definition theta_of :: "Mat \<Rightarrow> nat \<Rightarrow> nat \<Rightarrow> int \<Rightarrow> real" where
  "theta_of etf y x t = pi / 6 / 24 * of_int t + elem etf y x"

definition pixel_out ::
  "ext \<Rightarrow> Mat \<Rightarrow> Mat \<Rightarrow> Mat \<Rightarrow> real \<Rightarrow> nat \<Rightarrow> nat \<Rightarrow> nat \<Rightarrow> nat \<Rightarrow> nat \<Rightarrow> nat \<Rightarrow> nat \<Rightarrow> real" where
  "pixel_out E bilateral etf noise ratio width height dim' y x i c =
     (let t_i = tau / of_int const_n * of_int (randInt E i (2 * const_n + 1) - const_n);
          a = pixel_sums E bilateral etf noise width height dim' y x t_i
      in 1 - sum_v a ! c / (ratio * weight a ! c))"

definition LIConv_ok :: "Mat \<Rightarrow> Mat \<Rightarrow> Mat \<Rightarrow> bool" where
  "LIConv_ok img etf noise \<longleftrightarrow>
     cols img = cols etf \<and> rows img = rows etf \<and> channels etf = 1 \<and> depth etf = CV_32F
     \<and> cols img = cols noise \<and> rows img = rows noise \<and> channels noise = 1
     \<and> depth noise = CV_32F"

section \<open>Collaborators for the examples\<close>

text \<open>
  What the quantizer needs of a distance transform: a pixel that is zero in the mask is
  at distance zero from the nearest zero pixel.
\<close>

definition zero_at_zero :: "(Mat \<Rightarrow> Mat) \<Rightarrow> bool" where
  "zero_at_zero dt \<longleftrightarrow>
     (\<forall>m y x. y < rows m \<and> x < cols m \<and> elem m y x = 0 \<longrightarrow> elem (dt m) y x = 0)"

text \<open>
  A concrete distance transform, for the examples below. It follows the documentation of
  \<open>cv::distanceTransform\<close> for \<open>DIST_L2\<close> with a 3 by 3 mask: the length of the
  shortest path to the nearest zero pixel, where a step along a row or a column costs
  0.955 and a diagonal step costs 1.3693. A mask with no zero pixel has no such path;
  the library then leaves its initial, very large distance, here the parameter \<open>far\<close>.
\<close>

definition chamfer :: "nat \<Rightarrow> nat \<Rightarrow> nat \<times> nat \<Rightarrow> real" where
  "chamfer y x z =
     (let dy = (if y \<le> fst z then fst z - y else y - fst z);
          dx = (if x \<le> snd z then snd z - x else x - snd z)
      in 0.955 * real (max dx dy - min dx dy) + 1.3693 * real (min dx dy))"

definition zero_pixels :: "Mat \<Rightarrow> (nat \<times> nat) list" where
  "zero_pixels m =
     concat (map (\<lambda>y. map (Pair y) (filter (\<lambda>x. elem m y x = 0) [0..<cols m])) [0..<rows m])"

definition distanceTransform_3x3 :: "real \<Rightarrow> Mat \<Rightarrow> Mat" where
  "distanceTransform_3x3 far m =
     m\<lparr>depth := CV_32F,
       elem := \<lambda>y x. (case zero_pixels m of
                        [] \<Rightarrow> far
                      | z # zs \<Rightarrow> fold (\<lambda>z' d. min d (chamfer y x z')) zs (chamfer y x z))\<rparr>"

text \<open>Concrete matrices for the examples: a constant one, and one given by its rows.\<close>

definition Mat_fill :: "nat \<Rightarrow> nat \<Rightarrow> nat \<Rightarrow> real \<Rightarrow> Mat" where
  "Mat_fill r c ch v = \<lparr>rows = r, cols = c, channels = ch, depth = CV_32F, elem = \<lambda>y i. v\<rparr>"

definition Mat_of_rows :: "nat \<Rightarrow> real list list \<Rightarrow> Mat" where
  "Mat_of_rows ch xss =
     \<lparr>rows = length xss, cols = length (hd xss) div ch, channels = ch, depth = CV_32F,
      elem = \<lambda>y i. xss ! y ! i\<rparr>"


text \<open>
  A Gaussian for the examples. The source's \<open>gauss\<close> is in \<open>math_utils.h\<close>; in the
  theorems it is the parameter \<open>gauss E\<close>.
\<close>

definition gauss_example :: "real \<Rightarrow> real \<Rightarrow> real" where
  "gauss_example v sg = exp (- (v * v) / (2 * sg * sg))"

text \<open>
  A resize for the examples: the target size is \<open>dsize\<close>, or the rounded scaled size
  when \<open>dsize\<close> is empty; an image that already has the target size is copied, any other
  is sampled at the nearest pixel.
\<close>

definition resize_example :: "Mat \<Rightarrow> nat \<times> nat \<Rightarrow> real \<Rightarrow> real \<Rightarrow> Mat" where
  "resize_example m dsize fx fy =
     (let w = (if fst dsize = 0 \<or> snd dsize = 0 then nat (cvRound (fx * real (cols m)))
               else fst dsize);
          h = (if fst dsize = 0 \<or> snd dsize = 0 then nat (cvRound (fy * real (rows m)))
               else snd dsize)
      in if w = cols m \<and> h = rows m then m
         else m\<lparr>rows := h, cols := w,
                elem := \<lambda>y j. elem m (y * rows m div h)
                          ((j div channels m) * cols m div w * channels m + j mod channels m)\<rparr>)"

definition E_example :: ext where
  "E_example =
     \<lparr>gauss = gauss_example,
      randInt = (\<lambda>i m. int i mod m),
      bilateralFilter = (\<lambda>m d sc ss. m),
      cvtColor_BGR2GRAY = (\<lambda>m. m\<lparr>channels := 1, elem := \<lambda>y x. elem m y (x * channels m)\<rparr>),
      edgeDoG = (\<lambda>m. m),
      calcVectorField = (\<lambda>m k. m),
      distanceTransform = distanceTransform_3x3 32768,
      uniformNoise = (\<lambda>noise gray k i. (noise, i)),
      resize = resize_example\<rparr>"

section \<open>Properties of the quantizer\<close>

lemma Mat_elem_eqI:
  "(\<And>y i. f y i = g y i) \<Longrightarrow> m\<lparr>elem := f\<rparr> = m\<lparr>elem := g\<rparr>"
proof -
  assume "\<And>y i. f y i = g y i"
  then have "f = g" by (simp add: fun_eq_iff)
  then show ?thesis by simp
qed

lemma binarize_row:
  "fold (binarize_px y) [0..<w] u =
     u\<lparr>elem := \<lambda>y' x'. if y' = y \<and> x' < w then (if elem u y' x' < 192 then 0 else 1)
                      else elem u y' x'\<rparr>"
proof (induction w)
  case 0
  show ?case by simp
next
  case (Suc w)
  have "fold (binarize_px y) [0..<Suc w] u = binarize_px y w (fold (binarize_px y) [0..<w] u)"
    by simp
  also have "\<dots> = binarize_px y w
        (u\<lparr>elem := \<lambda>y' x'. if y' = y \<and> x' < w then (if elem u y' x' < 192 then 0 else 1)
                      else elem u y' x'\<rparr>)"
    by (simp only: Suc)
  also have "\<dots> = u\<lparr>elem := \<lambda>y' x'. if y' = y \<and> x' < Suc w
                      then (if elem u y' x' < 192 then 0 else 1) else elem u y' x'\<rparr>"
    by (auto simp add: binarize_px_def set_at_def fun_eq_iff less_Suc_eq)
  finally show ?case .
qed

lemma binarize_rows:
  "fold (\<lambda>y. fold (binarize_px y) [0..<w]) [0..<ht] u =
     u\<lparr>elem := \<lambda>y' x'. if y' < ht \<and> x' < w then (if elem u y' x' < 192 then 0 else 1)
                      else elem u y' x'\<rparr>"
proof (induction ht)
  case 0
  show ?case by simp
next
  case (Suc ht)
  have "fold (\<lambda>y. fold (binarize_px y) [0..<w]) [0..<Suc ht] u =
        fold (binarize_px ht) [0..<w] (fold (\<lambda>y. fold (binarize_px y) [0..<w]) [0..<ht] u)"
    by simp
  also have "\<dots> = fold (binarize_px ht) [0..<w]
        (u\<lparr>elem := \<lambda>y' x'. if y' < ht \<and> x' < w then (if elem u y' x' < 192 then 0 else 1)
                      else elem u y' x'\<rparr>)"
    by (simp only: Suc)
  also have "\<dots> = u\<lparr>elem := \<lambda>y' x'. if y' < Suc ht \<and> x' < w
                      then (if elem u y' x' < 192 then 0 else 1) else elem u y' x'\<rparr>"
    by (auto simp add: binarize_row fun_eq_iff less_Suc_eq)
  finally show ?case .
qed

lemma edgeMask_at:
  "elem (edgeMask w ht e) y x =
     (if y < ht \<and> x < w
      then (if saturate_uchar (cvRound (elem e y x * 255)) < 192 then 0 else 1)
      else of_int (saturate_uchar (cvRound (elem e y x * 255))))"
  by (simp add: edgeMask_def binarize_rows convertTo_8U_def Let_def)

lemma snap_row:
  "fold (snap_px T qs qt D vf y) [0..<w] h =
     h(vf := (h vf)\<lparr>elem := \<lambda>y' x'.
        if y' = y \<and> x' < w \<and> T < elem D y' x'
        then of_int \<lceil>elem (h vf) y' x' / qt\<rceil> * qt + qs else elem (h vf) y' x'\<rparr>)"
proof (induction w)
  case 0
  show ?case by simp
next
  case (Suc w)
  let ?m = "\<lambda>k. (h vf)\<lparr>elem := \<lambda>y' x'.
        if y' = y \<and> x' < k \<and> T < elem D y' x'
        then of_int \<lceil>elem (h vf) y' x' / qt\<rceil> * qt + qs else elem (h vf) y' x'\<rparr>"
  have "fold (snap_px T qs qt D vf y) [0..<Suc w] h =
        snap_px T qs qt D vf y w (fold (snap_px T qs qt D vf y) [0..<w] h)"
    by simp
  also have "\<dots> = snap_px T qs qt D vf y w (h(vf := ?m w))"
    by (simp only: Suc)
  also have "\<dots> = h(vf := ?m (Suc w))"
    by (auto simp add: snap_px_def set_at_def fun_eq_iff less_Suc_eq Let_def
        intro!: Mat_elem_eqI)
  finally show ?case .
qed

lemma snap_rows:
  "fold (\<lambda>y. fold (snap_px T qs qt D vf y) [0..<w]) [0..<ht] h =
     h(vf := (h vf)\<lparr>elem := \<lambda>y' x'.
        if y' < ht \<and> x' < w \<and> T < elem D y' x'
        then of_int \<lceil>elem (h vf) y' x' / qt\<rceil> * qt + qs else elem (h vf) y' x'\<rparr>)"
proof (induction ht)
  case 0
  show ?case by simp
next
  case (Suc ht)
  let ?F = "\<lambda>y. fold (snap_px T qs qt D vf y) [0..<w]"
  let ?m = "\<lambda>k. (h vf)\<lparr>elem := \<lambda>y' x'.
        if y' < k \<and> x' < w \<and> T < elem D y' x'
        then of_int \<lceil>elem (h vf) y' x' / qt\<rceil> * qt + qs else elem (h vf) y' x'\<rparr>"
  have "fold ?F [0..<Suc ht] h = fold (snap_px T qs qt D vf ht) [0..<w] (fold ?F [0..<ht] h)"
    by simp
  also have "\<dots> = fold (snap_px T qs qt D vf ht) [0..<w] (h(vf := ?m ht))"
    by (simp only: Suc)
  also have "\<dots> = h(vf := ?m (Suc ht))"
    by (auto simp add: snap_row fun_eq_iff less_Suc_eq)
  finally show ?case .
qed

lemma quantize_eq:
  "quantizeOrientation dt vf ed h =
     h(vf := (h vf)\<lparr>elem := \<lambda>y x.
        if y < rows (h vf) \<and> x < cols (h vf) \<and>
           real (max (cols (h vf)) (rows (h vf))) / 50
             < elem (dt (edgeMask (cols (h vf)) (rows (h vf)) (h ed))) y x
        then of_int \<lceil>elem (h vf) y x / pi\<rceil> * pi - pi / 4 else elem (h vf) y x\<rparr>)"
  by (auto simp add: quantizeOrientation_def snap_rows Let_def fun_eq_iff intro!: Mat_elem_eqI)

lemma edgeMask_header:
  "rows (edgeMask w ht e) = rows e" "cols (edgeMask w ht e) = cols e"
  "channels (edgeMask w ht e) = channels e" "depth (edgeMask w ht e) = CV_8U"
  by (simp_all add: edgeMask_def binarize_rows convertTo_8U_def Let_def)

lemma cvRound_lt: "r < 191.25 \<Longrightarrow> cvRound r \<le> 191"
proof -
  assume r: "r < 191.25"
  then have f: "\<lfloor>r\<rfloor> \<le> 191" by (simp add: floor_le_iff)
  show ?thesis
  proof (cases "\<lfloor>r\<rfloor> = 191")
    case True
    then have "r - of_int \<lfloor>r\<rfloor> < 1/2" using r by simp
    then show ?thesis using True by (simp add: cvRound_def Let_def)
  next
    case False
    then have "\<lfloor>r\<rfloor> + 1 \<le> 191" using f by linarith
    then show ?thesis using f by (simp add: cvRound_def Let_def)
  qed
qed

lemma cvRound_of_int: "cvRound (of_int k) = k"
  by (simp add: cvRound_def)

lemma zero_pixels_set:
  "set (zero_pixels m) = {(y, x). y < rows m \<and> x < cols m \<and> elem m y x = 0}"
  by (auto simp add: zero_pixels_def)

lemma chamfer_nonneg: "0 \<le> chamfer y x z"
  by (simp add: chamfer_def Let_def)

lemma chamfer_self: "chamfer y x (y, x) = 0"
  by (simp add: chamfer_def)

lemma fold_min_chamfer:
  "0 \<le> d \<Longrightarrow> 0 \<le> fold (\<lambda>z' d. min d (chamfer y x z')) zs d"
  "d = 0 \<or> (y, x) \<in> set zs \<Longrightarrow> 0 \<le> d \<Longrightarrow> fold (\<lambda>z' d. min d (chamfer y x z')) zs d = 0"
proof (induction zs arbitrary: d)
  case Nil
  { case 1 then show ?case by simp }
  { case 2 then show ?case by simp }
next
  case (Cons z zs)
  { case 1 then show ?case using Cons(1) [of "min d (chamfer y x z)"] chamfer_nonneg [of y x z] by simp }
  { case 2
    have nn: "0 \<le> min d (chamfer y x z)" using 2 chamfer_nonneg [of y x z] by simp
    have "min d (chamfer y x z) = 0 \<or> (y, x) \<in> set zs"
      using 2 chamfer_nonneg [of y x z] chamfer_self [of y x] by auto
    then show ?case using Cons(2) [OF _ nn] by simp }
qed

lemma distanceTransform_3x3_zero_at_zero: "zero_at_zero (distanceTransform_3x3 far)"
proof -
  have "elem (distanceTransform_3x3 far m) y x = 0"
    if "y < rows m" "x < cols m" "elem m y x = 0" for m y x
  proof -
    have mem: "(y, x) \<in> set (zero_pixels m)" using that by (simp add: zero_pixels_set)
    then obtain z zs where zs: "zero_pixels m = z # zs" by (cases "zero_pixels m") auto
    have "chamfer y x z = 0 \<or> (y, x) \<in> set zs"
      using mem zs chamfer_self [of y x] by auto
    then have "fold (\<lambda>z' d. min d (chamfer y x z')) zs (chamfer y x z) = 0"
      using fold_min_chamfer(2) chamfer_nonneg by blast
    then show ?thesis by (simp add: distanceTransform_3x3_def zs)
  qed
  then show ?thesis unfolding zero_at_zero_def by blast
qed

text \<open>
  Claim C4. For a flow field and an edge-strength map of the same extent, every pixel of
  the image whose distance (in the distance transform of the binarized edge mask, which
  is 0 exactly at the pixels whose converted strength is below 192) exceeds
  \<open>max(width, height) / 50\<close> has its angle \<open>\<theta>\<close> replaced by
  \<open>ceil(\<theta>/\<pi>)\<cdot>\<pi> - \<pi>/4\<close>, and every other pixel keeps its angle.
\<close>

theorem quantizeOrientation_snaps_far_pixels:
  assumes "rows (h edge) = rows (h vfield)" and "cols (h edge) = cols (h vfield)"
    and "y < rows (h vfield)" and "x < cols (h vfield)"
  shows "elem (quantizeOrientation dt vfield edge h vfield) y x =
           (if real (max (cols (h vfield)) (rows (h vfield))) / 50
                 < elem (dt (edgeMask (cols (h vfield)) (rows (h vfield)) (h edge))) y x
            then of_int \<lceil>elem (h vfield) y x / pi\<rceil> * pi - pi / 4
            else elem (h vfield) y x)
         \<and> elem (edgeMask (cols (h vfield)) (rows (h vfield)) (h edge)) y x =
           (if saturate_uchar (cvRound (elem (h edge) y x * 255)) < 192 then 0 else 1)"
  using assms by (simp add: quantize_eq edgeMask_at)

theorem quantizeOrientation_snaps_far_pixels_witness:
  "elem (quantizeOrientation (distanceTransform_3x3 32768) 0 1
      ((\<lambda>r. Mat_of_rows 1 [[0, 1]])(0 := Mat_of_rows 1 [[0, 0]])) 0) 0 1 = - pi / 4"
  using quantizeOrientation_snaps_far_pixels
    [of "(\<lambda>r. Mat_of_rows 1 [[0, 1]])(0 := Mat_of_rows 1 [[0, 0]])" 1 0 0 1
        "distanceTransform_3x3 32768"]
  by (simp add: distanceTransform_3x3_def zero_pixels_def Mat_of_rows_def chamfer_def
      edgeMask_at edgeMask_header cvRound_def saturate_uchar_def)

text \<open>
  Claim C8, as stated: with full strength (value 1) at every pixel of the edge-strength
  map, quantization leaves every angle unchanged. It fails. A strength of 1 converts to
  255, which is not below 192, so the mask is 1 at every pixel and has no zero pixel;
  the distance transform reports its largest distance everywhere, every pixel is far,
  and the angle 0 of the single pixel of a 1 by 1 flow field becomes \<open>- \<pi>/4\<close>.
\<close>

theorem quantizeOrientation_full_strength_counterexample:
  "elem (quantizeOrientation (distanceTransform_3x3 32768) 0 1
      ((\<lambda>r. Mat_fill 1 1 1 1)(0 := Mat_fill 1 1 1 0)) 0) 0 0
   \<noteq> elem (Mat_fill 1 1 1 0) 0 0"
  by (simp add: quantize_eq distanceTransform_3x3_def zero_pixels_def Mat_fill_def
      edgeMask_at edgeMask_header cvRound_def saturate_uchar_def)

text \<open>
  Claim C8, amended. The mask is zero where the strength is low, and the distance is
  measured to the nearest zero pixel of the mask: if the edge-strength map is below the
  binarization threshold (below 0.75, for example 0) at every pixel, then every pixel
  is at distance 0 and quantization leaves the whole flow field unchanged.
\<close>

theorem quantizeOrientation_low_strength_unchanged:
  assumes dt: "zero_at_zero dt"
    and ext: "rows (h edge) = rows (h vfield)" "cols (h edge) = cols (h vfield)"
    and low: "\<forall>y<rows (h vfield). \<forall>x<cols (h vfield). elem (h edge) y x < 3/4"
  shows "quantizeOrientation dt vfield edge h vfield = h vfield"
proof -
  let ?w = "cols (h vfield)" and ?ht = "rows (h vfield)"
  let ?mask = "edgeMask ?w ?ht (h edge)"
  have near: "\<not> real (max ?w ?ht) / 50 < elem (dt ?mask) y x" if "y < ?ht" "x < ?w" for y x
  proof -
    have "elem (h edge) y x < 3/4" using low that by blast
    then have "elem (h edge) y x * 255 < 191.25" by simp
    then have "cvRound (elem (h edge) y x * 255) \<le> 191" by (rule cvRound_lt)
    then have "saturate_uchar (cvRound (elem (h edge) y x * 255)) < 192"
      by (simp add: saturate_uchar_def)
    then have "elem ?mask y x = 0" using that by (simp add: edgeMask_at)
    moreover have "y < rows ?mask" "x < cols ?mask"
      using that ext by (simp_all add: edgeMask_header)
    ultimately have "elem (dt ?mask) y x = 0"
      using dt unfolding zero_at_zero_def by blast
    then show ?thesis by simp
  qed
  have "(h vfield)\<lparr>elem := \<lambda>y x.
        if y < ?ht \<and> x < ?w \<and> real (max ?w ?ht) / 50 < elem (dt ?mask) y x
        then of_int \<lceil>elem (h vfield) y x / pi\<rceil> * pi - pi / 4 else elem (h vfield) y x\<rparr>
      = (h vfield)\<lparr>elem := \<lambda>y x. elem (h vfield) y x\<rparr>"
    by (rule Mat_elem_eqI) (use near in auto)
  then show ?thesis by (simp add: quantize_eq)
qed

theorem quantizeOrientation_low_strength_unchanged_witness:
  "quantizeOrientation (distanceTransform_3x3 32768) 0 1
      ((\<lambda>r. Mat_fill 2 2 1 0)(0 := Mat_fill 2 2 1 (1/2))) 0 = Mat_fill 2 2 1 (1/2)"
  using quantizeOrientation_low_strength_unchanged
    [of "distanceTransform_3x3 32768" "(\<lambda>r. Mat_fill 2 2 1 0)(0 := Mat_fill 2 2 1 (1/2))" 1 0]
  by (simp add: distanceTransform_3x3_zero_at_zero Mat_fill_def)

text \<open>
  Claim C10. A call of the quantizer leaves the edge-strength matrix as it was: the
  mask is a converted copy, and the only matrix of the caller that is written is the one
  the flow-field reference names. The two references name two matrices, as at the call
  in \<open>pencilDrawing\<close>.
\<close>

theorem quantizeOrientation_edge_unchanged:
  assumes "edge \<noteq> vfield"
  shows "quantizeOrientation dt vfield edge h edge = h edge
         \<and> (\<forall>r. r \<noteq> vfield \<longrightarrow> quantizeOrientation dt vfield edge h r = h r)"
  using assms by (simp add: quantize_eq)

theorem quantizeOrientation_edge_unchanged_witness:
  "quantizeOrientation (distanceTransform_3x3 32768) 0 1
      ((\<lambda>r. Mat_fill 1 1 1 1)(0 := Mat_fill 1 1 1 0)) 1 = Mat_fill 1 1 1 1"
  using quantizeOrientation_edge_unchanged
    [of 1 0 "distanceTransform_3x3 32768" "(\<lambda>r. Mat_fill 1 1 1 1)(0 := Mat_fill 1 1 1 0)"]
  by simp

section \<open>Properties of the noise field\<close>

lemma c_int_nonneg: "0 \<le> r \<Longrightarrow> c_int r = \<lfloor>r\<rfloor>"
  by (simp add: c_int_def)

lemma c_int_floor: "0 \<le> \<lfloor>r\<rfloor> \<Longrightarrow> c_int r = \<lfloor>r\<rfloor>"
  by (simp add: c_int_def)

lemma noiseField_empty_ratio:
  "snd (fst (noiseField E W H gray [] i)) = 1.5 * of_int \<lfloor>0.2 * real (W * H)\<rfloor> / real (W * H)"
  by (simp add: noiseField_def Let_def c_int_nonneg)

lemma floor_fifth: "\<lfloor>0.2 * real k\<rfloor> = int k div 5"
proof -
  have "0.2 * real k = real_of_int (int k) / real_of_int 5" by simp
  then show ?thesis by (simp only: floor_divide_of_int_eq)
qed

lemma ratio_03_iff:
  assumes "0 < k"
  shows "1.5 * of_int (int k div 5) / real k = (0.3::real) \<longleftrightarrow> 5 dvd k"
proof -
  have k: "real k \<noteq> 0" using assms by simp
  have "1.5 * of_int (int k div 5) / real k = (0.3::real) \<longleftrightarrow> 5 * real_of_int (int k div 5) = real k"
    using k by (simp add: field_simps)
  also have "\<dots> \<longleftrightarrow> real_of_int (5 * (int k div 5)) = real_of_int (int k)" by simp
  also have "\<dots> \<longleftrightarrow> 5 * (int k div 5) = int k" by (simp only: of_int_eq_iff)
  also have "\<dots> \<longleftrightarrow> 5 dvd int k" by presburger
  also have "\<dots> \<longleftrightarrow> 5 dvd k" by presburger
  finally show ?thesis .
qed

lemma stamp_fold:
  "fold (stamp W H n) ps (m, r) =
     (m\<lparr>elem := \<lambda>y x. if y < rows m \<and> x < cols m
                          \<and> (\<exists>p\<in>set ps. c_int (fst p) = int x \<and> c_int (snd p) = int y)
                       then 1 else elem m y x\<rparr>,
      if ps = [] then r else 1.2 * of_int n / real (W * H))"
proof (induction ps arbitrary: m r)
  case Nil
  show ?case by simp
next
  case (Cons p ps)
  have "fold (stamp W H n) (p # ps) (m, r) =
        fold (stamp W H n) ps
          (rectangle_filled m (c_int (fst p)) (c_int (snd p)) 1 1 1,
           1.2 * of_int n / real (W * H))"
    by (simp add: stamp_def Let_def)
  also have "\<dots> = (m\<lparr>elem := \<lambda>y x. if y < rows m \<and> x < cols m
                          \<and> (\<exists>q\<in>set (p # ps). c_int (fst q) = int x \<and> c_int (snd q) = int y)
                       then 1 else elem m y x\<rparr>,
      1.2 * of_int n / real (W * H))"
    unfolding Cons
    by (auto simp add: rectangle_filled_def intro!: Mat_elem_eqI)
  finally show ?case by simp
qed

lemma noiseField_anchors:
  assumes "points \<noteq> []"
  shows "noiseField E W H gray points i =
     (((zeros H W 1)\<lparr>elem := \<lambda>y x. if y < H \<and> x < W
                          \<and> (\<exists>p\<in>set points. c_int (fst p) = int x \<and> c_int (snd p) = int y)
                       then 1 else 0\<rparr>,
      1.2 * real (length points) / real (W * H)), i)"
  using assms by (simp add: noiseField_def Let_def stamp_fold zeros_def cong: if_cong)

text \<open>
  Claim C5, as stated: with no anchor points the ratio is the constant 0.3, whatever the
  size of the image. It fails: the count \<open>nNoise\<close> is the integer \<open>(int)(0.2 * width *
  height)\<close>, and for a 3 by 3 image it is 1, so the ratio is \<open>1.5 * 1 / 9 = 1/6\<close>.
\<close>

theorem noiseField_ratio_counterexample:
  "snd (fst (noiseField E_example 3 3 (Mat_fill 3 3 1 0) [] 0)) \<noteq> 3 / 10"
  by (simp add: noiseField_def Let_def c_int_def)

text \<open>
  Claim C5, amended. With no anchor points the ratio of a \<open>W\<close> by \<open>H\<close> image is
  \<open>1.5 \<cdot> \<lfloor>0.2 \<cdot> W \<cdot> H\<rfloor> / (W \<cdot> H)\<close>; it is the constant 0.3 exactly when the number of
  pixels is a multiple of 5.
\<close>

theorem noiseField_no_anchors_ratio:
  assumes "0 < W * H"
  shows "snd (fst (noiseField E W H gray [] i))
           = 1.5 * of_int \<lfloor>0.2 * real (W * H)\<rfloor> / real (W * H)
         \<and> (snd (fst (noiseField E W H gray [] i)) = 0.3 \<longleftrightarrow> 5 dvd W * H)"
  using ratio_03_iff [OF assms]
  by (simp only: noiseField_empty_ratio floor_fifth)

theorem noiseField_no_anchors_ratio_witness:
  "snd (fst (noiseField E_example 5 4 (Mat_fill 4 5 1 0) [] 0)) = 3 / 10"
  using noiseField_no_anchors_ratio [of 5 4 E_example "Mat_fill 4 5 1 0" 0]
  by simp

text \<open>
  Claim C6. With \<open>k\<close> anchor points, \<open>k > 0\<close>, whose rounded-down coordinates are inside
  the image and distinct, the noise field is 1 at the rounded-down coordinate of every
  anchor and 0 at every other pixel, it has exactly \<open>k\<close> nonzero cells, and the ratio is
  \<open>1.2 \<cdot> k / (W \<cdot> H)\<close>.
\<close>

theorem noiseField_anchor_impulses:
  assumes ne: "points \<noteq> []"
    and inb: "\<forall>p\<in>set points. 0 \<le> fst (anchor_cell p) \<and> fst (anchor_cell p) < int W
                \<and> 0 \<le> snd (anchor_cell p) \<and> snd (anchor_cell p) < int H"
    and dist: "distinct (map anchor_cell points)"
  shows "(\<forall>y<H. \<forall>x<W. elem (fst (fst (noiseField E W H gray points i))) y x =
            (if (int x, int y) \<in> anchor_cell ` set points then 1 else 0))
       \<and> card {(y, x). y < H \<and> x < W \<and> elem (fst (fst (noiseField E W H gray points i))) y x \<noteq> 0}
           = length points
       \<and> snd (fst (noiseField E W H gray points i)) = 1.2 * real (length points) / real (W * H)"
proof -
  let ?noise = "fst (fst (noiseField E W H gray points i))"
  have ci: "c_int (fst p) = fst (anchor_cell p) \<and> c_int (snd p) = snd (anchor_cell p)"
    if "p \<in> set points" for p
    using inb that by (simp add: anchor_cell_def c_int_floor)
  have el: "elem ?noise y x = (if (int x, int y) \<in> anchor_cell ` set points then 1 else 0)"
    if "y < H" "x < W" for y x
  proof -
    have "(\<exists>p\<in>set points. c_int (fst p) = int x \<and> c_int (snd p) = int y)
          \<longleftrightarrow> (int x, int y) \<in> anchor_cell ` set points"
      using ci by (force simp add: image_iff prod_eq_iff)
    then show ?thesis using that by (simp add: noiseField_anchors [OF ne])
  qed
  have "{(y, x). y < H \<and> x < W \<and> elem ?noise y x \<noteq> 0}
        = (\<lambda>c. (nat (snd c), nat (fst c))) ` (anchor_cell ` set points)"
  proof (rule set_eqI)
    fix z :: "nat \<times> nat"
    obtain y x where z: "z = (y, x)" by (cases z)
    show "z \<in> {(y, x). y < H \<and> x < W \<and> elem ?noise y x \<noteq> 0}
          \<longleftrightarrow> z \<in> (\<lambda>c. (nat (snd c), nat (fst c))) ` (anchor_cell ` set points)"
    proof
      assume "z \<in> {(y, x). y < H \<and> x < W \<and> elem ?noise y x \<noteq> 0}"
      then have "y < H" "x < W" "elem ?noise y x \<noteq> 0" using z by auto
      then have "(int x, int y) \<in> anchor_cell ` set points" using el by (auto split: if_splits)
      then have "(nat (snd (int x, int y)), nat (fst (int x, int y)))
                 \<in> (\<lambda>c. (nat (snd c), nat (fst c))) ` (anchor_cell ` set points)"
        by (rule imageI)
      then show "z \<in> (\<lambda>c. (nat (snd c), nat (fst c))) ` (anchor_cell ` set points)"
        using z by simp
    next
      assume "z \<in> (\<lambda>c. (nat (snd c), nat (fst c))) ` (anchor_cell ` set points)"
      then obtain p where p: "p \<in> set points"
        and zp: "z = (nat (snd (anchor_cell p)), nat (fst (anchor_cell p)))" by auto
      have b: "0 \<le> fst (anchor_cell p)" "fst (anchor_cell p) < int W"
              "0 \<le> snd (anchor_cell p)" "snd (anchor_cell p) < int H"
        using inb p by auto
      have yx: "y < H" "x < W" using z zp b by auto
      have "(int x, int y) = anchor_cell p" using z zp b by (auto simp add: prod_eq_iff)
      then have "(int x, int y) \<in> anchor_cell ` set points" using p by blast
      then have "elem ?noise y x \<noteq> 0" using el yx by simp
      then show "z \<in> {(y, x). y < H \<and> x < W \<and> elem ?noise y x \<noteq> 0}" using z yx by simp
    qed
  qed
  moreover have "inj_on (\<lambda>c. (nat (snd c), nat (fst c))) (anchor_cell ` set points)"
  proof (rule inj_onI)
    fix c d assume c: "c \<in> anchor_cell ` set points" and d: "d \<in> anchor_cell ` set points"
      and e: "(nat (snd c), nat (fst c)) = (nat (snd d), nat (fst d))"
    have "0 \<le> fst c" "0 \<le> snd c" "0 \<le> fst d" "0 \<le> snd d" using c d inb by auto
    then show "c = d" using e by (simp add: prod_eq_iff eq_nat_nat_iff)
  qed
  ultimately have "card {(y, x). y < H \<and> x < W \<and> elem ?noise y x \<noteq> 0}
                   = card (anchor_cell ` set points)"
    by (simp add: card_image)
  also have "\<dots> = card (set (map anchor_cell points))" by simp
  also have "\<dots> = length points" using dist by (simp only: distinct_card length_map)
  finally have cnt: "card {(y, x). y < H \<and> x < W \<and> elem ?noise y x \<noteq> 0} = length points" .
  show ?thesis using el cnt by (simp add: noiseField_anchors [OF ne])
qed

theorem noiseField_anchor_impulses_witness:
  "elem (fst (fst (noiseField E_example 3 2 (Mat_fill 2 3 1 0) [(5/2, 1/2), (1/4, 3/2)] 0))) 0 2 = 1
   \<and> elem (fst (fst (noiseField E_example 3 2 (Mat_fill 2 3 1 0) [(5/2, 1/2), (1/4, 3/2)] 0))) 1 0 = 1
   \<and> elem (fst (fst (noiseField E_example 3 2 (Mat_fill 2 3 1 0) [(5/2, 1/2), (1/4, 3/2)] 0))) 0 0 = 0
   \<and> card {(y, x). y < 2 \<and> x < 3 \<and> elem (fst (fst (noiseField E_example 3 2 (Mat_fill 2 3 1 0)
                       [(5/2, 1/2), (1/4, 3/2)] 0))) y x \<noteq> 0} = 2
   \<and> snd (fst (noiseField E_example 3 2 (Mat_fill 2 3 1 0) [(5/2, 1/2), (1/4, 3/2)] 0))
       = 2 / 5"
proof -
  have "(\<forall>y<2. \<forall>x<3. elem (fst (fst (noiseField E_example 3 2 (Mat_fill 2 3 1 0)
                       [(5/2, 1/2), (1/4, 3/2)] 0))) y x =
            (if (int x, int y) \<in> anchor_cell ` set [(5/2, 1/2), (1/4, 3/2)] then 1 else 0))
   \<and> card {(y, x). y < 2 \<and> x < 3 \<and> elem (fst (fst (noiseField E_example 3 2 (Mat_fill 2 3 1 0)
                       [(5/2, 1/2), (1/4, 3/2)] 0))) y x \<noteq> 0} = length [(5/2, 1/2), (1/4, 3/2) :: real \<times> real]
   \<and> snd (fst (noiseField E_example 3 2 (Mat_fill 2 3 1 0) [(5/2, 1/2), (1/4, 3/2)] 0))
       = 1.2 * real (length [(5/2, 1/2), (1/4, 3/2) :: real \<times> real]) / real (3 * 2)"
    by (rule noiseField_anchor_impulses) (simp_all add: anchor_cell_def)
  then show ?thesis by (simp add: anchor_cell_def)
qed

section \<open>Properties of the convolver\<close>

lemma write_channels:
  "fold (\<lambda>c lic. set_at lic y (x * d + c) (V c)) [0..<k] lic =
     lic\<lparr>elem := \<lambda>y' j. if y' = y \<and> x * d \<le> j \<and> j < x * d + k then V (j - x * d)
                        else elem lic y' j\<rparr>"
proof (induction k)
  case 0
  have "(\<lambda>y' j. if y' = y \<and> x * d \<le> j \<and> j < x * d + 0 then V (j - x * d)
                        else elem lic y' j) = elem lic"
    by (auto simp add: fun_eq_iff)
  then show ?case by simp
next
  case (Suc k)
  have "fold (\<lambda>c lic. set_at lic y (x * d + c) (V c)) [0..<Suc k] lic =
        set_at (fold (\<lambda>c lic. set_at lic y (x * d + c) (V c)) [0..<k] lic) y (x * d + k) (V k)"
    by simp
  also have "\<dots> = lic\<lparr>elem := \<lambda>y' j. if y' = y \<and> x * d \<le> j \<and> j < x * d + Suc k
                        then V (j - x * d) else elem lic y' j\<rparr>"
    unfolding Suc by (auto simp add: set_at_def fun_eq_iff intro!: Mat_elem_eqI)
  finally show ?case .
qed

lemma LIConv_px_eq:
  "LIConv_px E B etf noise ratio w ht d y x (lic, i) =
     (lic\<lparr>elem := \<lambda>y' j. if y' = y \<and> x * d \<le> j \<and> j < x * d + d
                          then pixel_out E B etf noise ratio w ht d y x i (j - x * d)
                          else elem lic y' j\<rparr>, Suc i)"
  by (auto simp add: LIConv_px_def Let_def write_channels pixel_out_def intro!: Mat_elem_eqI)

lemma cell_of_pixel:
  fixes d :: nat
  assumes "x * d \<le> j" "j < x * d + d"
  shows "j div d = x" "j mod d = j - x * d"
proof -
  have d: "0 < d" using assms by (cases d) auto
  obtain c where c: "j = x * d + c" "c < d"
    using assms by (metis add_diff_inverse_nat le_add_diff_inverse nat_add_left_cancel_less not_less)
  show "j div d = x" using c d by simp
  show "j mod d = j - x * d" using c d by simp
qed

lemma LIConv_row:
  "fold (LIConv_px E B etf noise ratio w ht d y) [0..<k] (lic, i) =
     (lic\<lparr>elem := \<lambda>y' j. if y' = y \<and> j < k * d
                          then pixel_out E B etf noise ratio w ht d y (j div d) (i + j div d) (j mod d)
                          else elem lic y' j\<rparr>, i + k)"
proof (induction k)
  case 0
  show ?case by simp
next
  case (Suc k)
  have "fold (LIConv_px E B etf noise ratio w ht d y) [0..<Suc k] (lic, i) =
        LIConv_px E B etf noise ratio w ht d y k
          (fold (LIConv_px E B etf noise ratio w ht d y) [0..<k] (lic, i))"
    by simp
  also have "\<dots> = (lic\<lparr>elem := \<lambda>y' j. if y' = y \<and> j < Suc k * d
                          then pixel_out E B etf noise ratio w ht d y (j div d) (i + j div d) (j mod d)
                          else elem lic y' j\<rparr>, i + Suc k)"
    unfolding Suc LIConv_px_eq
    by (auto simp add: cell_of_pixel not_less intro!: Mat_elem_eqI)
  finally show ?case .
qed

lemma LIConv_rows:
  "fold (\<lambda>y. fold (LIConv_px E B etf noise ratio w ht d y) [0..<w]) [0..<k] (lic, i) =
     (lic\<lparr>elem := \<lambda>y' j. if y' < k \<and> j < w * d
                          then pixel_out E B etf noise ratio w ht d y' (j div d)
                                 (i + y' * w + j div d) (j mod d)
                          else elem lic y' j\<rparr>, i + k * w)"
proof (induction k)
  case 0
  show ?case by simp
next
  case (Suc k)
  let ?F = "\<lambda>y. fold (LIConv_px E B etf noise ratio w ht d y) [0..<w]"
  have "fold ?F [0..<Suc k] (lic, i) = ?F k (fold ?F [0..<k] (lic, i))"
    by simp
  also have "\<dots> = (lic\<lparr>elem := \<lambda>y' j. if y' < Suc k \<and> j < w * d
                          then pixel_out E B etf noise ratio w ht d y' (j div d)
                                 (i + y' * w + j div d) (j mod d)
                          else elem lic y' j\<rparr>, i + Suc k * w)"
    unfolding Suc LIConv_row
    by (auto simp add: less_Suc_eq add.assoc intro!: Mat_elem_eqI)
  finally show ?case .
qed

lemma LIConv_eq:
  "LIConv E img etf noise ratio i =
     (if LIConv_ok img etf noise then
        Some (\<lparr>rows = rows img, cols = cols img, channels = channels img, depth = depth img,
               elem = \<lambda>y j. if y < rows img \<and> j < cols img * channels img
                      then pixel_out E (bilateralFilter E img 19 0.5 15) etf noise ratio
                             (cols img) (rows img) (channels img) y (j div channels img)
                             (i + y * cols img + j div channels img) (j mod channels img)
                      else 0\<rparr>,
              i + rows img * cols img)
      else None)"
  by (auto simp add: LIConv_def LIConv_ok_def Let_def LIConv_rows fun_eq_iff)

lemma LIConv_pixel:
  assumes ok: "LIConv_ok img etf noise"
    and "y < rows img" "x < cols img" "c < channels img"
  shows "\<exists>lic i'. LIConv E img etf noise ratio i = Some (lic, i')
           \<and> elem lic y (x * channels img + c) =
               pixel_out E (bilateralFilter E img 19 0.5 15) etf noise ratio
                 (cols img) (rows img) (channels img) y x (i + y * cols img + x) c"
proof -
  let ?d = "channels img"
  have d: "0 < ?d" using assms(4) by simp
  have "x * ?d + c < x * ?d + ?d" using assms(4) by simp
  also have "\<dots> = Suc x * ?d" by simp
  also have "\<dots> \<le> cols img * ?d" using assms(3) by (simp only: mult_le_mono1 Suc_leI)
  finally have j: "x * ?d + c < cols img * ?d" .
  have dv: "(x * ?d + c) div ?d = x" "(x * ?d + c) mod ?d = c" using assms(4) by simp_all
  show ?thesis
    using ok assms(2,4) j by (simp add: LIConv_eq dv)
qed

text \<open>
  Claim C9, as stated: the convolver draws one random integer per row of pixels, so
  \<open>height\<close> draws in all. It fails: the draw is inside the loop over \<open>x\<close>, and for an image
  2 pixels wide and 1 pixel high the generator is 2 draws further, not 1.
\<close>

theorem LIConv_draws_counterexample:
  "map_option snd (LIConv E_example (Mat_fill 1 2 1 (1/2)) (Mat_fill 1 2 1 0)
      (Mat_fill 1 2 1 0) (3/10) 0)
   \<noteq> Some (0 + rows (Mat_fill 1 2 1 (1/2)))"
  by (simp add: LIConv_eq LIConv_ok_def Mat_fill_def)

text \<open>
  Claim C9, amended. A run of the convolver whose assertions hold draws exactly one
  random integer per output pixel: the generator is \<open>width \<cdot> height\<close> draws further.
\<close>

theorem LIConv_draws_once_per_pixel:
  assumes "LIConv_ok img etf noise"
  shows "\<exists>lic. LIConv E img etf noise ratio i = Some (lic, i + rows img * cols img)"
  using assms by (simp add: LIConv_eq)

theorem LIConv_draws_once_per_pixel_witness:
  "\<exists>lic. LIConv E_example (Mat_fill 3 2 1 (1/2)) (Mat_fill 3 2 1 0) (Mat_fill 3 2 1 0) (3/10) 7
          = Some (lic, 13)"
  using LIConv_draws_once_per_pixel
    [of "Mat_fill 3 2 1 (1/2)" "Mat_fill 3 2 1 0" "Mat_fill 3 2 1 0" E_example "3/10" 7]
  by (simp add: LIConv_ok_def Mat_fill_def)

lemma map_upt_update:
  "c < d \<Longrightarrow> (map f [0..<d])[c := v] = map (f(c := v)) [0..<d]"
  by (rule nth_equalityI) (auto simp add: nth_list_update)

lemma vecs_cong:
  assumes "\<And>c. c < d \<Longrightarrow> f c = f' c" and "\<And>c. c < d \<Longrightarrow> g c = g' c"
    and "\<And>c. c < d \<Longrightarrow> p c = p' c" and "\<And>c. c < d \<Longrightarrow> q c = q' c"
  shows "vecs d f g p q = vecs d f' g' p' q'"
  using assms by (simp add: vecs_def)

lemma sample_c_vecs:
  assumes "c < d"
  shows "sample_c E B N d y x yy xx c (vecs d f g p q) =
     vecs d (f(c := f c + gauss E (elem B yy (xx * d + c) - elem B y (x * d + c)) 2
                       * elem N yy xx * (1 - elem B y (x * d + c))))
            (g(c := g c + gauss E (elem B yy (xx * d + c) - elem B y (x * d + c)) 2)) p q"
  using assms by (simp add: sample_c_def vecs_def Let_def map_upt_update sigma_2_def)

lemma sample_c_fold:
  assumes "k \<le> d"
  shows "fold (sample_c E B N d y x yy xx) [0..<k] (vecs d f g p q) =
     vecs d (\<lambda>c. if c < k
                 then f c + gauss E (elem B yy (xx * d + c) - elem B y (x * d + c)) 2
                       * elem N yy xx * (1 - elem B y (x * d + c))
                 else f c)
            (\<lambda>c. if c < k
                 then g c + gauss E (elem B yy (xx * d + c) - elem B y (x * d + c)) 2
                 else g c) p q"
  using assms
proof (induction k)
  case 0
  show ?case by simp
next
  case (Suc k)
  then have k: "k < d" "k \<le> d" by simp_all
  have "fold (sample_c E B N d y x yy xx) [0..<Suc k] (vecs d f g p q) =
        sample_c E B N d y x yy xx k (fold (sample_c E B N d y x yy xx) [0..<k] (vecs d f g p q))"
    by simp
  also have "\<dots> = vecs d (\<lambda>c. if c < Suc k
                 then f c + gauss E (elem B yy (xx * d + c) - elem B y (x * d + c)) 2
                       * elem N yy xx * (1 - elem B y (x * d + c))
                 else f c)
            (\<lambda>c. if c < Suc k
                 then g c + gauss E (elem B yy (xx * d + c) - elem B y (x * d + c)) 2
                 else g c) p q"
    unfolding Suc.IH [OF k(2)] sample_c_vecs [OF k(1)]
    by (simp add: vecs_def less_Suc_eq)
  finally show ?case .
qed

lemma sample_vecs:
  "sample E B N w ht d y x theta s (vecs d f g p q) =
     vecs d (\<lambda>c. f c + sample_s E B N w ht d y x c theta s)
            (\<lambda>c. g c + sample_w E B w ht d y x c theta s) p q"
proof (cases "inside w ht (landing y x theta s)")
  case True
  let ?q = "landing y x theta s"
  have "sample E B N w ht d y x theta s (vecs d f g p q) =
        fold (sample_c E B N d y x (nat (snd ?q)) (nat (fst ?q))) [0..<d] (vecs d f g p q)"
    using True by (simp add: sample_def Let_def inside_def landing_def const_S_def s_disc_def)
  also have "\<dots> = vecs d (\<lambda>c. f c + sample_s E B N w ht d y x c theta s)
            (\<lambda>c. g c + sample_w E B w ht d y x c theta s) p q"
    unfolding sample_c_fold [OF le_refl]
    by (rule vecs_cong) (simp_all add: sample_s_def sample_w_def True G2_at_def)
  finally show ?thesis .
next
  case False
  then show ?thesis
    by (auto simp add: sample_def Let_def sample_s_def sample_w_def inside_def
        landing_def const_S_def s_disc_def)
qed

lemma sample_fold:
  "fold (sample E B N w ht d y x theta) ss (vecs d f g p q) =
     vecs d (\<lambda>c. f c + (\<Sum>s\<leftarrow>ss. sample_s E B N w ht d y x c theta s))
            (\<lambda>c. g c + (\<Sum>s\<leftarrow>ss. sample_w E B w ht d y x c theta s)) p q"
proof (induction ss arbitrary: f g)
  case Nil
  show ?case by simp
next
  case (Cons s ss)
  show ?case
    by (simp add: sample_vecs Cons add.assoc)
qed

lemma angle_c_fold:
  assumes "k \<le> d"
  shows "fold (angle_c G1) [0..<k] (vecs d f g p q) =
     vecs d f g (\<lambda>c. if c < k then p c + G1 * f c else p c)
                (\<lambda>c. if c < k then q c + G1 * g c else q c)"
  using assms
proof (induction k)
  case 0
  show ?case by simp
next
  case (Suc k)
  then have k: "k < d" "k \<le> d" by simp_all
  have "fold (angle_c G1) [0..<Suc k] (vecs d f g p q) =
        angle_c G1 k (fold (angle_c G1) [0..<k] (vecs d f g p q))"
    by simp
  also have "\<dots> = vecs d f g (\<lambda>c. if c < Suc k then p c + G1 * f c else p c)
                (\<lambda>c. if c < Suc k then q c + G1 * g c else q c)"
    unfolding Suc.IH [OF k(2)] using k(1)
    by (simp add: angle_c_def vecs_def map_upt_update less_Suc_eq)
  finally show ?case .
qed

lemma angle_vecs:
  "angle E B etf N w ht d y x t_i t (vecs d f g p q) =
     vecs d (\<lambda>c. \<Sum>s\<leftarrow>[- s_disc..s_disc]. sample_s E B N w ht d y x c (theta_of etf y x t) s)
            (\<lambda>c. \<Sum>s\<leftarrow>[- s_disc..s_disc]. sample_w E B w ht d y x c (theta_of etf y x t) s)
            (\<lambda>c. p c + gauss E (t_i - theta_of etf y x t) 4
                        * (\<Sum>s\<leftarrow>[- s_disc..s_disc]. sample_s E B N w ht d y x c (theta_of etf y x t) s))
            (\<lambda>c. q c + gauss E (t_i - theta_of etf y x t) 4
                        * (\<Sum>s\<leftarrow>[- s_disc..s_disc]. sample_w E B w ht d y x c (theta_of etf y x t) s))"
proof -
  have z: "(vecs d f g p q)\<lparr>s_sum := map (\<lambda>v. 0) (s_sum (vecs d f g p q)),
                            w_sum := map (\<lambda>v. 0) (w_sum (vecs d f g p q))\<rparr>
           = vecs d (\<lambda>c. 0) (\<lambda>c. 0) p q"
    by (simp add: vecs_def comp_def)
  show ?thesis
    unfolding angle_def Let_def z sample_fold angle_c_fold [OF le_refl]
    by (rule vecs_cong) (simp_all add: theta_of_def tau_def t_disc_def sigma_1_def)
qed

lemma angle_fold:
  "\<exists>f' g'. fold (angle E B etf N w ht d y x t_i) ts (vecs d f g p q) =
     vecs d f' g'
       (\<lambda>c. p c + (\<Sum>t\<leftarrow>ts. gauss E (t_i - theta_of etf y x t) 4
                        * (\<Sum>s\<leftarrow>[- s_disc..s_disc]. sample_s E B N w ht d y x c (theta_of etf y x t) s)))
       (\<lambda>c. q c + (\<Sum>t\<leftarrow>ts. gauss E (t_i - theta_of etf y x t) 4
                        * (\<Sum>s\<leftarrow>[- s_disc..s_disc]. sample_w E B w ht d y x c (theta_of etf y x t) s)))"
proof (induction ts arbitrary: f g p q)
  case Nil
  show ?case by auto
next
  case (Cons t ts)
  show ?case
    unfolding fold_simps angle_vecs
    using Cons [of _ _ "\<lambda>c. p c + gauss E (t_i - theta_of etf y x t) 4
                        * (\<Sum>s\<leftarrow>[- s_disc..s_disc]. sample_s E B N w ht d y x c (theta_of etf y x t) s)"
                     "\<lambda>c. q c + gauss E (t_i - theta_of etf y x t) 4
                        * (\<Sum>s\<leftarrow>[- s_disc..s_disc]. sample_w E B w ht d y x c (theta_of etf y x t) s)"]
    by (simp add: add.assoc)
qed

lemma pixel_sums_nth:
  assumes "c < d"
  shows "sum_v (pixel_sums E B etf N w ht d y x t_i) ! c =
           (\<Sum>t\<leftarrow>[- t_disc..t_disc]. gauss E (t_i - theta_of etf y x t) 4
               * (\<Sum>s\<leftarrow>[- s_disc..s_disc]. sample_s E B N w ht d y x c (theta_of etf y x t) s))"
    and "weight (pixel_sums E B etf N w ht d y x t_i) ! c =
           (\<Sum>t\<leftarrow>[- t_disc..t_disc]. gauss E (t_i - theta_of etf y x t) 4
               * (\<Sum>s\<leftarrow>[- s_disc..s_disc]. sample_w E B w ht d y x c (theta_of etf y x t) s))"
proof -
  have init: "\<lparr>s_sum = replicate d 0, w_sum = replicate d 0, sum_v = replicate d 0,
               weight = replicate d 0\<rparr> = vecs d (\<lambda>c. 0) (\<lambda>c. 0) (\<lambda>c. 0) (\<lambda>c. 0)"
    by (simp add: vecs_def map_replicate_const)
  obtain f' g' where r: "pixel_sums E B etf N w ht d y x t_i =
     vecs d f' g'
       (\<lambda>c. 0 + (\<Sum>t\<leftarrow>[- t_disc..t_disc]. gauss E (t_i - theta_of etf y x t) 4
                        * (\<Sum>s\<leftarrow>[- s_disc..s_disc]. sample_s E B N w ht d y x c (theta_of etf y x t) s)))
       (\<lambda>c. 0 + (\<Sum>t\<leftarrow>[- t_disc..t_disc]. gauss E (t_i - theta_of etf y x t) 4
                        * (\<Sum>s\<leftarrow>[- s_disc..s_disc]. sample_w E B w ht d y x c (theta_of etf y x t) s)))"
    unfolding pixel_sums_def init
    using angle_fold [of E B etf N w ht d y x t_i "[- t_disc..t_disc]" "\<lambda>c. 0" "\<lambda>c. 0" "\<lambda>c. 0" "\<lambda>c. 0"]
    by auto
  show "sum_v (pixel_sums E B etf N w ht d y x t_i) ! c =
           (\<Sum>t\<leftarrow>[- t_disc..t_disc]. gauss E (t_i - theta_of etf y x t) 4
               * (\<Sum>s\<leftarrow>[- s_disc..s_disc]. sample_s E B N w ht d y x c (theta_of etf y x t) s))"
    unfolding r using assms by (simp add: vecs_def)
  show "weight (pixel_sums E B etf N w ht d y x t_i) ! c =
           (\<Sum>t\<leftarrow>[- t_disc..t_disc]. gauss E (t_i - theta_of etf y x t) 4
               * (\<Sum>s\<leftarrow>[- s_disc..s_disc]. sample_w E B w ht d y x c (theta_of etf y x t) s))"
    unfolding r using assms by (simp add: vecs_def)
qed

lemma sum_list_upto: "(\<Sum>s\<leftarrow>[a..b]. f s) = (\<Sum>s\<in>{a..b}. f s)"
  by (simp add: sum_list_distinct_conv_sum_set)

lemma sum_list_upto_if:
  "(\<Sum>s\<leftarrow>[a..b]. if P s then f s else 0) = (\<Sum>s\<in>{s \<in> {a..b}. P s}. f s)"
proof -
  have "(\<Sum>s\<in>{s \<in> {a..b}. P s}. f s) = (\<Sum>s\<in>{a..b}. if P s then f s else 0)"
    by (rule sum.inter_filter) simp
  then show ?thesis by (simp only: sum_list_upto)
qed

lemma sample_s_sum:
  "(\<Sum>s\<leftarrow>[- s_disc..s_disc]. sample_s E B N w ht d y x c th s) =
     (\<Sum>s\<in>{s \<in> {- 24..24}. inside w ht (landing y x th s)}.
        G2_at E B d y x c (landing y x th s)
        * elem N (nat (snd (landing y x th s))) (nat (fst (landing y x th s)))
        * (1 - elem B y (x * d + c)))"
  unfolding sample_s_def sum_list_upto_if by (simp add: s_disc_def)

lemma sample_w_sum:
  "(\<Sum>s\<leftarrow>[- s_disc..s_disc]. sample_w E B w ht d y x c th s) =
     (\<Sum>s\<in>{s \<in> {- 24..24}. inside w ht (landing y x th s)}. G2_at E B d y x c (landing y x th s))"
  unfolding sample_w_def sum_list_upto_if by (simp add: s_disc_def)

lemma pixel_out_reference:
  assumes "c < d"
  shows "pixel_out E B etf N ratio w ht d y x i c =
     LIC_reference E B etf N ratio w ht d y x
       (pi / 6 / 2 * of_int (randInt E i 5 - 2)) c"
  apply (simp only: pixel_out_def Let_def pixel_sums_nth [OF assms] sample_s_sum sample_w_sum)
  apply (simp only: sum_list_upto LIC_reference_def Let_def)
  apply (simp add: t_disc_def theta_of_def G2_at_def tau_def const_n_def)
  done

lemma sum_list_pos_member:
  assumes "\<And>v. v \<in> set vs \<Longrightarrow> 0 \<le> f v" and "u \<in> set vs" and "0 < f u"
  shows "0 < (\<Sum>v\<leftarrow>vs. f v :: real)"
  using assms
proof (induction vs)
  case Nil
  then show ?case by simp
next
  case (Cons v vs)
  have nn: "0 \<le> (\<Sum>v\<leftarrow>vs. f v)"
    by (rule sum_list_nonneg) (use Cons.prems(1) in auto)
  show ?case
  proof (cases "u = v")
    case True
    then show ?thesis using nn Cons.prems(3) by simp
  next
    case False
    then have "u \<in> set vs" using Cons.prems(2) by simp
    then have "0 < (\<Sum>v\<leftarrow>vs. f v)" using Cons.IH Cons.prems by simp
    moreover have "0 \<le> f v" using Cons.prems(1) by simp
    ultimately show ?thesis by simp
  qed
qed

lemma landing_zero: "landing y x th 0 = (int x, int y)"
  by (simp add: landing_def c_int_def)

lemma sample_w_pos:
  assumes g: "\<forall>v sg. 0 < gauss E v sg" and "y < ht" "x < w"
  shows "0 < (\<Sum>s\<leftarrow>[- s_disc..s_disc]. sample_w E B w ht d y x c th s)"
proof (rule sum_list_pos_member [where u = 0])
  show "0 \<le> sample_w E B w ht d y x c th v" for v
    using g by (simp add: sample_w_def G2_at_def less_imp_le)
  show "(0::int) \<in> set [- s_disc..s_disc]" by (simp add: s_disc_def)
  show "0 < sample_w E B w ht d y x c th 0"
    using g assms(2,3) by (simp add: sample_w_def landing_zero inside_def G2_at_def)
qed

lemma weight_pos:
  assumes g: "\<forall>v sg. 0 < gauss E v sg" and "y < ht" "x < w" "c < d"
  shows "0 < weight (pixel_sums E B etf N w ht d y x t_i) ! c"
  unfolding pixel_sums_nth(2) [OF assms(4)]
proof (rule sum_list_pos_member [where u = 0])
  have p: "0 < gauss E (t_i - theta_of etf y x t) 4
            * (\<Sum>s\<leftarrow>[- s_disc..s_disc]. sample_w E B w ht d y x c (theta_of etf y x t) s)" for t
    using g sample_w_pos [OF g assms(2,3)] by simp
  show "0 \<le> gauss E (t_i - theta_of etf y x t) 4
            * (\<Sum>s\<leftarrow>[- s_disc..s_disc]. sample_w E B w ht d y x c (theta_of etf y x t) s)" for t
    using p [of t] by simp
  show "(0::int) \<in> set [- t_disc..t_disc]" by (simp add: t_disc_def)
  show "0 < gauss E (t_i - theta_of etf y x 0) 4
            * (\<Sum>s\<leftarrow>[- s_disc..s_disc]. sample_w E B w ht d y x c (theta_of etf y x 0) s)"
    by (rule p)
qed

text \<open>
  Claim C3. In exact real arithmetic, with a Gaussian that is positive everywhere and a
  positive ratio, the divisor of every pixel of the image and every channel is not
  zero: \<open>weight[c]\<close> is positive after the loop over the angles, because the sample
  \<open>s = 0\<close> of every angle lands on the pixel itself, which is inside the image.
\<close>

theorem LIConv_weight_positive:
  assumes "\<forall>v sg. 0 < gauss E v sg" and "0 < ratio"
    and "y < height" and "x < width" and "c < dim'"
  shows "0 < weight (pixel_sums E bilateral etf noise width height dim' y x t_i) ! c
         \<and> ratio * weight (pixel_sums E bilateral etf noise width height dim' y x t_i) ! c \<noteq> 0
         \<and> sample E bilateral noise width height dim' y x theta 0 a
             = fold (sample_c E bilateral noise dim' y x y x) [0..<dim'] a"
proof -
  have "0 < weight (pixel_sums E bilateral etf noise width height dim' y x t_i) ! c"
    by (rule weight_pos [OF assms(1,3,4,5)])
  moreover have "sample E bilateral noise width height dim' y x theta 0 a
             = fold (sample_c E bilateral noise dim' y x y x) [0..<dim'] a"
    using assms(3,4) by (simp add: sample_def Let_def c_int_def)
  ultimately show ?thesis using assms(2) by simp
qed

theorem LIConv_weight_positive_witness:
  "0 < weight (pixel_sums E_example (Mat_fill 2 2 3 (1/2)) (Mat_fill 2 2 1 0)
                 (Mat_fill 2 2 1 1) 2 2 3 1 0 (pi / 12)) ! 2"
  using LIConv_weight_positive
    [of E_example "3/10" 1 2 0 2 2 3 "Mat_fill 2 2 3 (1/2)" "Mat_fill 2 2 1 0"
        "Mat_fill 2 2 1 1" "pi / 12"]
  by (simp add: E_example_def gauss_example_def)

text \<open>
  Claim C1. When the assertions of the convolver hold, it returns, and the value it
  writes for the pixel \<open>(x, y)\<close> of the image and the channel \<open>c\<close> is the reference
  double-Gaussian line integral of the specification, with the jitter \<open>t_i\<close> of the
  pixel's own draw (the pixels draw in scan order).
\<close>

theorem LIConv_is_reference:
  assumes "LIConv_ok img etf noise"
    and "y < rows img" and "x < cols img" and "c < channels img"
  shows "\<exists>lic i'. LIConv E img etf noise ratio i = Some (lic, i')
           \<and> elem lic y (x * channels img + c) =
               LIC_reference E (bilateralFilter E img 19 0.5 15) etf noise ratio
                 (cols img) (rows img) (channels img) y x
                 (pi / 6 / 2 * of_int (randInt E (i + y * cols img + x) 5 - 2)) c"
  using LIConv_pixel [OF assms] by (simp only: pixel_out_reference [OF assms(4)])

theorem LIConv_is_reference_witness:
  "\<exists>lic i'. LIConv E_example (Mat_fill 2 2 3 (1/2)) (Mat_fill 2 2 1 0) (Mat_fill 2 2 1 1)
               (3/10) 0 = Some (lic, i')
     \<and> elem lic 1 5 =
         LIC_reference E_example (Mat_fill 2 2 3 (1/2)) (Mat_fill 2 2 1 0) (Mat_fill 2 2 1 1)
           (3/10) 2 2 3 1 1 (pi / 12) 2"
  using LIConv_is_reference
    [of "Mat_fill 2 2 3 (1/2)" "Mat_fill 2 2 1 0" "Mat_fill 2 2 1 1" 1 1 2 E_example "3/10" 0]
  by (simp add: LIConv_ok_def Mat_fill_def E_example_def)

section \<open>Properties of the multi-scale pipeline\<close>

lemma fold_LOD_level_None:
  "fold (LOD_level E img points w ht) ls None = None"
  by (induction ls) (simp_all add: LOD_level_def)

lemma LOD_level_step:
  assumes "rows acc = rows img" "cols acc = cols img" "channels acc = channels img"
    "depth acc = CV_32F"
  shows "LOD_level E img points (cols img) (rows img) l (Some (acc, i)) =
     (case level_image E img points l i of
        None \<Rightarrow> None
      | Some (U, i') \<Rightarrow> Some (acc\<lparr>elem := \<lambda>y j. elem acc y j + elem U y j\<rparr>, i'))"
  using assms
  by (auto simp add: LOD_level_def level_image_def Let_def mat_add_def split: option.splits)

lemma fold_LOD_level:
  assumes "rows acc = rows img" "cols acc = cols img" "channels acc = channels img"
    "depth acc = CV_32F"
  shows "fold (LOD_level E img points (cols img) (rows img)) ls (Some (acc, i)) =
     (case level_images E img points ls i of
        None \<Rightarrow> None
      | Some (Us, i') \<Rightarrow>
          Some (acc\<lparr>elem := \<lambda>y j. elem acc y j + (\<Sum>U\<leftarrow>Us. elem U y j)\<rparr>, i'))"
  using assms
proof (induction ls arbitrary: acc i)
  case Nil
  then show ?case by simp
next
  case (Cons l ls)
  show ?case
  proof (cases "level_image E img points l i")
    case None
    then show ?thesis
      by (simp add: LOD_level_step [OF Cons.prems] fold_LOD_level_None)
  next
    case (Some r)
    obtain U i' where r: "r = (U, i')" by (cases r)
    let ?acc = "acc\<lparr>elem := \<lambda>y j. elem acc y j + elem U y j\<rparr>"
    have h: "rows ?acc = rows img" "cols ?acc = cols img" "channels ?acc = channels img"
      "depth ?acc = CV_32F" using Cons.prems by simp_all
    show ?thesis
      by (auto simp add: LOD_level_step [OF Cons.prems] Some r Cons.IH [OF h] add.assoc
          split: option.splits intro!: Mat_elem_eqI)
  qed
qed

lemma pencilDrawingLOD_eq:
  "pencilDrawingLOD E img points level i = LOD_reference E img points level i"
proof -
  let ?z = "zeros (rows img) (cols img) (channels img)"
  have h: "rows ?z = rows img" "cols ?z = cols img" "channels ?z = channels img"
    "depth ?z = CV_32F" by (simp_all add: zeros_def)
  show ?thesis
    unfolding pencilDrawingLOD_def LOD_reference_def Let_def fold_LOD_level [OF h]
    by (auto simp add: mat_div_def zeros_def split: option.splits)
qed

lemma pencilDrawing_header:
  assumes "pencilDrawing E input points i = Some (lic, i')"
  shows "rows lic = rows input \<and> cols lic = cols input \<and> channels lic = channels input
         \<and> depth lic = CV_32F"
  using assms
  by (auto simp add: pencilDrawing_def Let_def LIConv_eq convertTo_32F_def split: if_splits)

lemma pencilDrawing_example_returns:
  assumes "points \<noteq> []"
  shows "\<exists>lic i'. pencilDrawing E_example input points i = Some (lic, i')"
  using assms
  by (simp add: pencilDrawing_def Let_def LIConv_eq LIConv_ok_def quantize_eq
      noiseField_anchors convertTo_32F_def E_example_def zeros_def)

lemma resize_example_header:
  assumes "0 < w" "0 < h"
  shows "rows (resize_example m (w, h) fx fy) = h" "cols (resize_example m (w, h) fx fy) = w"
    "channels (resize_example m (w, h) fx fy) = channels m"
    "depth (resize_example m (w, h) fx fy) = depth m"
  using assms by (simp_all add: resize_example_def Let_def)

lemma level_image_example_returns:
  assumes "points \<noteq> []" "0 < cols img" "0 < rows img"
  shows "\<exists>U i'. level_image E_example img points l i = Some (U, i')"
proof -
  let ?sc = "1 / 2 ^ nat (l - 1) :: real"
  let ?I = "resize E_example img (0, 0) ?sc ?sc"
  let ?P = "map (\<lambda>q. (fst q * ?sc, snd q * ?sc)) points"
  have "?P \<noteq> []" using assms(1) by simp
  then obtain lic i' where p: "pencilDrawing E_example ?I ?P i = Some (lic, i')"
    using pencilDrawing_example_returns by blast
  have d: "depth lic = CV_32F" "channels lic = channels ?I"
    using pencilDrawing_header [OF p] by simp_all
  have c: "channels ?I = channels img"
    by (simp add: E_example_def resize_example_def Let_def)
  have r: "resize E_example lic (cols img, rows img) 0 0 = resize_example lic (cols img, rows img) 0 0"
    by (simp add: E_example_def)
  show ?thesis
    unfolding level_image_def Let_def p
    using resize_example_header [OF assms(2,3), of lic 0 0] d c
    by (simp add: r)
qed

text \<open>
  Claim C2. For at least one level, the multi-scale pipeline is the reference of the
  specification: the sum, over the levels from the coarsest down to 1, of the
  single-scale result of the resized input and the scaled anchors, resized back to the
  original extent, divided by the number of levels. It fails to return exactly when a
  level does.
\<close>

theorem pencilDrawingLOD_is_average:
  assumes "1 \<le> level"
  shows "pencilDrawingLOD E img points level i = LOD_reference E img points level i"
  by (rule pencilDrawingLOD_eq)

theorem pencilDrawingLOD_is_average_witness:
  "pencilDrawingLOD E_example (Mat_fill 2 2 3 (1/2)) [(1/2, 1/2)] 2 0
     = LOD_reference E_example (Mat_fill 2 2 3 (1/2)) [(1/2, 1/2)] 2 0
   \<and> LOD_reference E_example (Mat_fill 2 2 3 (1/2)) [(1/2, 1/2)] 2 0 \<noteq> None"
proof -
  let ?img = "Mat_fill 2 2 3 (1/2)"
  have ne: "[(1/2, 1/2) :: real \<times> real] \<noteq> []" and sz: "0 < cols ?img" "0 < rows ?img"
    by (simp_all add: Mat_fill_def)
  obtain U2 i2 where l2: "level_image E_example ?img [(1/2, 1/2)] 2 0 = Some (U2, i2)"
    using level_image_example_returns [OF ne sz] by blast
  obtain U1 i1 where l1: "level_image E_example ?img [(1/2, 1/2)] 1 i2 = Some (U1, i1)"
    using level_image_example_returns [OF ne sz] by blast
  have "rev [1..2::int] = [2, 1]" by (simp add: upto_rec1)
  then have "LOD_reference E_example ?img [(1/2, 1/2)] 2 0 \<noteq> None"
    by (simp add: LOD_reference_def l1 l2)
  then show ?thesis
    using pencilDrawingLOD_is_average [of 2 E_example ?img "[(1/2, 1/2)]" 0] by simp
qed

text \<open>
  Claim C7. With one level the multi-scale pipeline is the single-scale pipeline on the
  same image, anchors and generator: the scale is 1 and the sum is divided by 1. The
  resize of OpenCV copies an image that already has the target size; that is the
  hypothesis on \<open>resize\<close>.
\<close>

theorem pencilDrawingLOD_one_level:
  assumes r1: "resize E img (0, 0) 1 1 = img"
    and r2: "\<forall>lic i'. pencilDrawing E img points i = Some (lic, i')
               \<longrightarrow> resize E lic (cols img, rows img) 0 0 = lic"
  shows "pencilDrawingLOD E img points 1 i = pencilDrawing E img points i"
proof (cases "pencilDrawing E img points i")
  case None
  then show ?thesis
    by (simp add: pencilDrawingLOD_def LOD_level_def r1 Let_def)
next
  case (Some r)
  obtain lic i' where r: "r = (lic, i')" by (cases r)
  have p: "pencilDrawing E img points i = Some (lic, i')" using Some r by simp
  have up: "resize E lic (cols img, rows img) 0 0 = lic" using r2 p by blast
  have hd: "rows lic = rows img" "cols lic = cols img" "channels lic = channels img"
    "depth lic = CV_32F" using pencilDrawing_header [OF p] by simp_all
  have "mat_add (zeros (rows img) (cols img) (channels img)) lic = Some lic"
    using hd by (simp add: mat_add_def zeros_def)
  then show ?thesis
    by (simp add: pencilDrawingLOD_def LOD_level_def r1 Let_def p up mat_div_def)
qed

theorem pencilDrawingLOD_one_level_witness:
  "pencilDrawingLOD E_example (Mat_fill 2 2 3 (1/2)) [(1/2, 1/2)] 1 0
     = pencilDrawing E_example (Mat_fill 2 2 3 (1/2)) [(1/2, 1/2)] 0
   \<and> pencilDrawing E_example (Mat_fill 2 2 3 (1/2)) [(1/2, 1/2)] 0 \<noteq> None"
proof -
  let ?img = "Mat_fill 2 2 3 (1/2)"
  have r1: "resize E_example ?img (0, 0) 1 1 = ?img"
    by (simp add: E_example_def resize_example_def Mat_fill_def cvRound_def)
  have r2: "\<forall>lic i'. pencilDrawing E_example ?img [(1/2, 1/2)] 0 = Some (lic, i')
               \<longrightarrow> resize E_example lic (cols ?img, rows ?img) 0 0 = lic"
  proof (intro allI impI)
    fix lic i'
    assume "pencilDrawing E_example ?img [(1/2, 1/2)] 0 = Some (lic, i')"
    then have "rows lic = 2 \<and> cols lic = 2"
      using pencilDrawing_header [of E_example ?img "[(1/2, 1/2)]" 0 lic i']
      by (simp add: Mat_fill_def)
    then show "resize E_example lic (cols ?img, rows ?img) 0 0 = lic"
      by (simp add: E_example_def resize_example_def Mat_fill_def)
  qed
  have ok: "pencilDrawing E_example ?img [(1/2, 1/2)] 0 \<noteq> None"
    using pencilDrawing_example_returns [of "[(1/2, 1/2)]" ?img 0] by auto
  show ?thesis
    using pencilDrawingLOD_one_level [of E_example ?img "[(1/2, 1/2)]" 0, OF r1 r2] ok
    by simp
qed

end
